theory Spec2Isabelle
  imports Complex_Main "HOL-Library.Word" "HOL-Library.Multiset"
begin

section \<open>Data model\<close>

text \<open>
  The collectors of the firehose exporter, embedded from
  \<^verbatim>\<open>collectors/http_start_stop_collector.go\<close> and
  \<^verbatim>\<open>collectors/value_metrics_collector.go\<close>.

  Go maps are association lists with distinct keys: a lookup is \<open>map_of\<close>, a store
  replaces the entry of an existing key in place and appends a new key at the end. The
  order in which Go ranges over a map is unspecified; the list order is one such order,
  and every statement about emitted observations is made on multisets, so it does not
  depend on the order chosen.

  \<open>int32\<close> and \<open>int64\<close> are \<open>32 word\<close> and \<open>64 word\<close>, read signed with \<open>sint\<close>.
  \<open>float64\<close> is a type parameter \<open>'f\<close> of which only \<open>0\<close> and \<open>+\<close> are used (the sums of
  the summaries), with no law assumed of them.
\<close>

text \<open>
  Modelled from the spec: the record type \<^verbatim>\<open>metrics.HttpStartStop\<close> of the store package,
  whose declaration is not among the sources. The fields are the ones
  \<^verbatim>\<open>calculateMetrics\<close> reads.
\<close>

record HttpStartStop =
  ApplicationId :: string
  InstanceId :: string
  Uri :: string
  Method :: string
  StatusCode :: "32 word"
  ContentLength :: "64 word"
  ClientDuration :: "64 word"
  ServerDuration :: "64 word"

text \<open>
  Modelled from the spec: one element of \<^verbatim>\<open>Stream.Samples()\<close> of the quantile package,
  a (value, estimated rank) pair. The collectors read only \<open>Value\<close>.
\<close>

record 'f Sample =
  Value :: 'f
  Rank :: nat

text \<open>\<^verbatim>\<open>type Method struct\<close>: one leaf of the tree; \<open>'s\<close> is \<^verbatim>\<open>*quantile.Stream\<close>.\<close>

record 's Method =
  StatusCodes :: "(32 word \<times> 64 word) list"
  ContentLength :: 's
  ClientDuration :: 's
  ServerDuration :: 's

record 's Uri =
  Methods :: "(string \<times> 's Method) list"

record 's Instance =
  Uris :: "(string \<times> 's Uri) list"

record 's Application =
  Instances :: "(string \<times> 's Instance) list"

type_synonym 's Applications = "(string \<times> 's Application) list"

text \<open>
  The packages the collectors call and that are not among the sources, taken as
  parameters: the quantile stream (\<^verbatim>\<open>NewTargeted\<close>, \<^verbatim>\<open>Insert\<close>, \<^verbatim>\<open>Count\<close>, \<^verbatim>\<open>Query\<close>,
  \<^verbatim>\<open>Samples\<close>), the conversion \<^verbatim>\<open>float64(x)\<close> of an \<open>int64\<close>, the name normalisation of
  \<^verbatim>\<open>utils\<close>, and the check of the exposition layer that makes the construction of an
  observation fail (\<open>conflict\<close>: the error it reports for a descriptor and label values,
  if any).
\<close>

record Desc =
  fqName :: string
  helpText :: string
  variableLabels :: "string list"
  constLabels :: "(string \<times> string) list"

record ('s, 'f) deps =
  NewTargeted :: "real list \<Rightarrow> 's"
  Insert :: "'s \<Rightarrow> 'f \<Rightarrow> 's"
  Count :: "'s \<Rightarrow> int"
  Query :: "'s \<Rightarrow> real \<Rightarrow> 'f"
  Samples :: "'s \<Rightarrow> 'f Sample list"
  float64 :: "int \<Rightarrow> 'f"
  NormalizeName :: "string \<Rightarrow> string"
  NormalizeNameDesc :: "string \<Rightarrow> string"
  NormalizeOriginDesc :: "string \<Rightarrow> string"
  conflict :: "Desc \<Rightarrow> string list \<Rightarrow> string option"

section \<open>Go maps\<close>

text \<open>\<^verbatim>\<open>m[k] = v\<close>.\<close>

fun store :: "'k \<Rightarrow> 'v \<Rightarrow> ('k \<times> 'v) list \<Rightarrow> ('k \<times> 'v) list" where
  "store k v [] = [(k, v)]"
| "store k v ((k', v') # m) = (if k = k' then (k, v) # m else (k', v') # store k v m)"

text \<open>\<^verbatim>\<open>m[k]++\<close> on a \<^verbatim>\<open>map[int32]int64\<close>: a missing key reads as 0; the addition wraps.\<close>

definition incr :: "32 word \<Rightarrow> (32 word \<times> 64 word) list \<Rightarrow> (32 word \<times> 64 word) list" where
  "incr k m = store k ((case map_of m k of None \<Rightarrow> 0 | Some n \<Rightarrow> n) + 1) m"

section \<open>The aggregator\<close>

text \<open>The body of the loop of \<^verbatim>\<open>calculateMetrics\<close>, for one record.\<close>

definition newMethod :: "('s, 'f) deps \<Rightarrow> 's Method" where
  "newMethod d =
     \<lparr>StatusCodes = [],
      ContentLength = NewTargeted d [0.50, 0.90, 0.99],
      ClientDuration = NewTargeted d [0.50, 0.90, 0.99],
      ServerDuration = NewTargeted d [0.50, 0.90, 0.99]\<rparr>"

definition recordMethod :: "('s, 'f) deps \<Rightarrow> HttpStartStop \<Rightarrow> 's Method \<Rightarrow> 's Method" where
  "recordMethod d r m =
     \<lparr>StatusCodes = incr (StatusCode r) (StatusCodes m),
      ContentLength =
        Insert d (Method.ContentLength m) (float64 d (sint (HttpStartStop.ContentLength r))),
      ClientDuration =
        Insert d (Method.ClientDuration m) (float64 d (sint (HttpStartStop.ClientDuration r))),
      ServerDuration =
        Insert d (Method.ServerDuration m) (float64 d (sint (HttpStartStop.ServerDuration r)))\<rparr>"

definition calculateStep :: "('s, 'f) deps \<Rightarrow> 's Applications \<Rightarrow> HttpStartStop \<Rightarrow> 's Applications" where
  "calculateStep d applications r =
     (if ApplicationId r = [] then applications
      else
        let application =
              (case map_of applications (ApplicationId r) of
                 None \<Rightarrow> \<lparr>Instances = []\<rparr> | Some a \<Rightarrow> a);
            instance =
              (case map_of (Instances application) (InstanceId r) of
                 None \<Rightarrow> \<lparr>Uris = []\<rparr> | Some i \<Rightarrow> i);
            uri =
              (case map_of (Uris instance) (HttpStartStop.Uri r) of
                 None \<Rightarrow> \<lparr>Methods = []\<rparr> | Some u \<Rightarrow> u);
            method =
              (case map_of (Methods uri) (HttpStartStop.Method r) of
                 None \<Rightarrow> newMethod d | Some m \<Rightarrow> m);
            method' = recordMethod d r method;
            uri' = \<lparr>Methods = store (HttpStartStop.Method r) method' (Methods uri)\<rparr>;
            instance' = \<lparr>Uris = store (HttpStartStop.Uri r) uri' (Uris instance)\<rparr>;
            application' =
              \<lparr>Instances = store (InstanceId r) instance' (Instances application)\<rparr>
        in store (ApplicationId r) application' applications)"

definition calculateMetrics :: "('s, 'f) deps \<Rightarrow> HttpStartStop list \<Rightarrow> 's Applications" where
  "calculateMetrics d httpStartStops = foldl (calculateStep d) [] httpStartStops"

text \<open>The leaf of a tree at a path, and the paths of all its leaves.\<close>

type_synonym path = "string \<times> string \<times> string \<times> string"

definition leaf :: "'s Applications \<Rightarrow> path \<Rightarrow> 's Method option" where
  "leaf applications p =
     (case p of (a, i, u, m) \<Rightarrow>
        (case map_of applications a of None \<Rightarrow> None
         | Some application \<Rightarrow>
        (case map_of (Instances application) i of None \<Rightarrow> None
         | Some instance \<Rightarrow>
        (case map_of (Uris instance) u of None \<Rightarrow> None
         | Some uri \<Rightarrow> map_of (Methods uri) m))))"

text \<open>
  The entries of a two-level map, keyed by the pair of keys: the order is the one of two
  nested \<^verbatim>\<open>range\<close> loops.
\<close>

definition flatten :: "('k \<times> 'v) list \<Rightarrow> ('v \<Rightarrow> ('p \<times> 'x) list) \<Rightarrow> (('k \<times> 'p) \<times> 'x) list" where
  "flatten m g = concat (map (\<lambda>(k, v). map (\<lambda>(p, x). ((k, p), x)) (g v)) m)"

definition instanceLeaves :: "'s Instance \<Rightarrow> ((string \<times> string) \<times> 's Method) list" where
  "instanceLeaves instance = flatten (Uris instance) Methods"

definition applicationLeaves :: "'s Application \<Rightarrow> ((string \<times> string \<times> string) \<times> 's Method) list" where
  "applicationLeaves application = flatten (Instances application) instanceLeaves"

definition leaves :: "'s Applications \<Rightarrow> (path \<times> 's Method) list" where
  "leaves applications = flatten applications applicationLeaves"

definition pathOf :: "HttpStartStop \<Rightarrow> path" where
  "pathOf r = (ApplicationId r, InstanceId r, HttpStartStop.Uri r, HttpStartStop.Method r)"

text \<open>The records of a batch that are aggregated into the leaf at a path.\<close>

definition contrib :: "HttpStartStop list \<Rightarrow> path \<Rightarrow> HttpStartStop list" where
  "contrib rs p = filter (\<lambda>r. ApplicationId r \<noteq> [] \<and> pathOf r = p) rs"

text \<open>The invariant of the tree: keys are unique in each of the four levels of maps.\<close>

definition wfInstance :: "'s Instance \<Rightarrow> bool" where
  "wfInstance instance \<longleftrightarrow>
     distinct (map fst (Uris instance)) \<and>
     (\<forall>(u, uri) \<in> set (Uris instance). distinct (map fst (Methods uri)))"

definition wfApplication :: "'s Application \<Rightarrow> bool" where
  "wfApplication application \<longleftrightarrow>
     distinct (map fst (Instances application)) \<and>
     (\<forall>(i, instance) \<in> set (Instances application). wfInstance instance)"

definition wfTree :: "'s Applications \<Rightarrow> bool" where
  "wfTree applications \<longleftrightarrow>
     distinct (map fst applications) \<and>
     (\<forall>(a, application) \<in> set applications. wfApplication application)"

text \<open>The records aggregated into one leaf, applied in turn to its \<^verbatim>\<open>Method\<close>.\<close>

definition recordAll :: "('s, 'f) deps \<Rightarrow> 's Method \<Rightarrow> HttpStartStop list \<Rightarrow> 's Method" where
  "recordAll d m rs = foldl (\<lambda>m r. recordMethod d r m) m rs"

section \<open>The quantile sketch\<close>

text \<open>
  Modelled from the spec: the stream of the quantile package
  (\<^verbatim>\<open>github.com/bmizerany/perks/quantile\<close>), which is not among the sources. A sketch is
  the ordered sequence of (value, g, delta) triples and the number of inserts. \<open>Insert\<close>
  records one observation, as a triple with \<open>g = 1\<close> and \<open>delta = 0\<close> at its place in
  the order; the compression pass, which the spec allows but does not determine (neither
  its threshold nor the error bounds of the targets are given), is left out, so no
  statement below depends on it. \<open>Count\<close> is the number of inserts, \<open>Samples\<close> the
  triples with their estimated ranks, and \<open>Query\<close> the value at the estimated rank
  \<open>\<lceil>\<phi> \<cdot> N\<rceil>\<close>, or 0 on an empty sketch.
\<close>

record 'f Sketch =
  targets :: "real list"
  tuples :: "('f \<times> nat \<times> nat) list"
  inserts :: nat

definition sketchNewTargeted :: "real list \<Rightarrow> 'f Sketch" where
  "sketchNewTargeted quantiles = \<lparr>targets = quantiles, tuples = [], inserts = 0\<rparr>"

fun insertTuple :: "'f::linorder \<Rightarrow> ('f \<times> nat \<times> nat) list \<Rightarrow> ('f \<times> nat \<times> nat) list" where
  "insertTuple v [] = [(v, 1, 0)]"
| "insertTuple v ((w, g, dl) # ts) =
     (if v < w then (v, 1, 0) # (w, g, dl) # ts else (w, g, dl) # insertTuple v ts)"

definition sketchInsert :: "'f::linorder Sketch \<Rightarrow> 'f \<Rightarrow> 'f Sketch" where
  "sketchInsert s v = s\<lparr>tuples := insertTuple v (tuples s), inserts := inserts s + 1\<rparr>"

definition sketchCount :: "'f Sketch \<Rightarrow> int" where
  "sketchCount s = int (inserts s)"

fun ranked :: "nat \<Rightarrow> ('f \<times> nat \<times> nat) list \<Rightarrow> 'f Sample list" where
  "ranked r [] = []"
| "ranked r ((v, g, dl) # ts) = \<lparr>Value = v, Rank = r + g\<rparr> # ranked (r + g) ts"

definition sketchSamples :: "'f Sketch \<Rightarrow> 'f Sample list" where
  "sketchSamples s = ranked 0 (tuples s)"

fun atRank :: "nat \<Rightarrow> 'f::zero Sample list \<Rightarrow> 'f" where
  "atRank t [] = 0"
| "atRank t [x] = Value x"
| "atRank t (x # y # ys) = (if t \<le> Rank x then Value x else atRank t (y # ys))"

definition sketchQuery :: "'f::zero Sketch \<Rightarrow> real \<Rightarrow> 'f" where
  "sketchQuery s q = atRank (nat \<lceil>q * real (inserts s)\<rceil>) (sketchSamples s)"

text \<open>
  Modelled from the spec: the exposition layer's "label-cardinality or naming conflict":
  a descriptor whose label names are not all different, or label values that are not as
  many as the descriptor's variable labels.
\<close>

definition labelConflict :: "Desc \<Rightarrow> string list \<Rightarrow> string option" where
  "labelConflict desc labelValues =
     (if \<not> distinct (variableLabels desc @ map fst (constLabels desc))
      then Some ''duplicate label names''
      else if length labelValues \<noteq> length (variableLabels desc)
      then Some ''inconsistent label cardinality''
      else None)"

text \<open>
  One instance of the parameters, with \<open>float64\<close> read as \<open>real\<close>, the sketch above,
  names left as they are by the normalisation, and the conflict check above.
\<close>

definition specDeps :: "(real Sketch, real) deps" where
  "specDeps =
     \<lparr>NewTargeted = sketchNewTargeted, Insert = sketchInsert, Count = sketchCount,
      Query = sketchQuery, Samples = sketchSamples, float64 = real_of_int,
      NormalizeName = (\<lambda>s. s), NormalizeNameDesc = (\<lambda>s. s), NormalizeOriginDesc = (\<lambda>s. s),
      conflict = labelConflict\<rparr>"

text \<open>
  What the spec says of \<open>Count\<close>: it is the exact number of \<open>Insert\<close> calls on the
  stream. This is the only property of the quantile package that the statements about
  counts assume.
\<close>

definition countsInserts :: "('s, 'f) deps \<Rightarrow> bool" where
  "countsInserts d \<longleftrightarrow>
     (\<forall>qs. Count d (NewTargeted d qs) = 0) \<and> (\<forall>s v. Count d (Insert d s v) = Count d s + 1)"

text \<open>
  What is compared between two leaves: the status codes as a map (a Go map has no order)
  and the counts of the three sketches.
\<close>

definition leafSummary :: "('s, 'f) deps \<Rightarrow> 's Method \<Rightarrow> (32 word \<rightharpoonup> 64 word) \<times> int \<times> int \<times> int" where
  "leafSummary d m =
     (map_of (StatusCodes m), Count d (Method.ContentLength m),
      Count d (Method.ClientDuration m), Count d (Method.ServerDuration m))"

section \<open>Scenarios\<close>

text \<open>Scenario B of the spec: a record with no application id.\<close>

definition scenarioB :: HttpStartStop where
  "scenarioB = \<lparr>ApplicationId = [], InstanceId = ''i1'', Uri = ''/x'', Method = ''GET'',
     StatusCode = 200, ContentLength = 100, ClientDuration = 50, ServerDuration = 40\<rparr>"

text \<open>Scenario A of the spec: three records at one leaf, two with status 200, one with 500.\<close>

definition scenarioA200 :: HttpStartStop where
  "scenarioA200 = \<lparr>ApplicationId = ''a1'', InstanceId = ''i1'', Uri = ''/x'', Method = ''GET'',
     StatusCode = 200, ContentLength = 100, ClientDuration = 50, ServerDuration = 40\<rparr>"

definition scenarioA500 :: HttpStartStop where
  "scenarioA500 = scenarioA200\<lparr>StatusCode := 500\<rparr>"

definition scenarioA :: "HttpStartStop list" where
  "scenarioA = [scenarioA200, scenarioA200, scenarioA500]"

text \<open>The leaf that Scenario A is expected to build.\<close>

definition scenarioALeaf :: "real Sketch Method" where
  "scenarioALeaf =
     \<lparr>StatusCodes = [(200, 2), (500, 1)],
      ContentLength = \<lparr>targets = [0.50, 0.90, 0.99],
        tuples = [(100, 1, 0), (100, 1, 0), (100, 1, 0)], inserts = 3\<rparr>,
      ClientDuration = \<lparr>targets = [0.50, 0.90, 0.99],
        tuples = [(50, 1, 0), (50, 1, 0), (50, 1, 0)], inserts = 3\<rparr>,
      ServerDuration = \<lparr>targets = [0.50, 0.90, 0.99],
        tuples = [(40, 1, 0), (40, 1, 0), (40, 1, 0)], inserts = 3\<rparr>\<rparr>"

text \<open>The batch of Scenario A in another order.\<close>

definition scenarioAPermuted :: "HttpStartStop list" where
  "scenarioAPermuted = [scenarioA500, scenarioA200, scenarioA200]"

section \<open>The exposition boundary\<close>

text \<open>
  Modelled from the spec: the observations handed to the exposition layer
  (\<^verbatim>\<open>prometheus.Metric\<close>; the client library is not among the sources). A counter or gauge
  observation is (descriptor, kind, value, label values); a summary observation is
  (descriptor, count, sum, quantile estimates, label values). A descriptor is the four
  arguments of \<^verbatim>\<open>prometheus.NewDesc\<close>. Constructing an observation fails exactly when the
  exposition layer reports a conflict for its descriptor and label values; the \<^verbatim>\<open>Must\<close>
  constructors panic where the plain ones return the error.
\<close>

datatype ValueType = CounterValue | GaugeValue

datatype 'f Metric =
  ConstMetric Desc ValueType 'f "string list"
| ConstSummary Desc "64 word" 'f "(real \<times> 'f) list" "string list"

datatype panic = Panic string

definition NewDesc :: "string \<Rightarrow> string \<Rightarrow> string list \<Rightarrow> (string \<times> string) list \<Rightarrow> Desc" where
  "NewDesc name h labels cl =
     \<lparr>fqName = name, helpText = h, variableLabels = labels, constLabels = cl\<rparr>"

text \<open>Modelled from the spec: the full name is \<^verbatim>\<open>{namespace}_{subsystem}_{metric}\<close>.\<close>

definition BuildFQName :: "string \<Rightarrow> string \<Rightarrow> string \<Rightarrow> string" where
  "BuildFQName ns subsystem name = ns @ ''_'' @ subsystem @ ''_'' @ name"

text \<open>Modelled from the spec: the two subsystem constants of the package.\<close>

definition http_start_stop_subsystem :: string where
  "http_start_stop_subsystem = ''http_start_stop''"

definition value_metrics_subsystem :: string where
  "value_metrics_subsystem = ''value_metrics''"

definition NewConstMetric ::
  "('s, 'f) deps \<Rightarrow> Desc \<Rightarrow> ValueType \<Rightarrow> 'f \<Rightarrow> string list \<Rightarrow> string + 'f Metric" where
  "NewConstMetric d desc valueType v labelValues =
     (case conflict d desc labelValues of
        Some err \<Rightarrow> Inl err
      | None \<Rightarrow> Inr (ConstMetric desc valueType v labelValues))"

definition MustNewConstMetric ::
  "('s, 'f) deps \<Rightarrow> Desc \<Rightarrow> ValueType \<Rightarrow> 'f \<Rightarrow> string list \<Rightarrow> panic + 'f Metric" where
  "MustNewConstMetric d desc valueType v labelValues =
     (case NewConstMetric d desc valueType v labelValues of
        Inl err \<Rightarrow> Inl (Panic err)
      | Inr m \<Rightarrow> Inr m)"

definition MustNewConstSummary ::
  "('s, 'f) deps \<Rightarrow> Desc \<Rightarrow> 64 word \<Rightarrow> 'f \<Rightarrow> (real \<times> 'f) list \<Rightarrow> string list \<Rightarrow> panic + 'f Metric" where
  "MustNewConstSummary d desc n sumv quantiles labelValues =
     (case conflict d desc labelValues of
        Some err \<Rightarrow> Inl (Panic err)
      | None \<Rightarrow> Inr (ConstSummary desc n sumv quantiles labelValues))"

text \<open>
  \<^verbatim>\<open>strconv.Itoa\<close> of the Go standard library: the decimal digits of the number, after a
  minus sign when it is negative.
\<close>

definition digitChar :: "nat \<Rightarrow> char" where
  "digitChar n = ''0123456789'' ! n"

fun natDec :: "nat \<Rightarrow> string" where
  "natDec n = (if n < 10 then [digitChar n] else natDec (n div 10) @ [digitChar (n mod 10)])"

declare natDec.simps [simp del]

definition Itoa :: "int \<Rightarrow> string" where
  "Itoa i = (if i < 0 then CHR ''-'' # natDec (nat (- i)) else natDec (nat i))"

text \<open>The number that a string of decimal digits, with an optional minus sign, denotes.\<close>

definition digitsValue :: "string \<Rightarrow> nat" where
  "digitsValue s = foldl (\<lambda>acc c. 10 * acc + (of_char c - 48)) 0 s"

definition decimalValue :: "string \<Rightarrow> int" where
  "decimalValue s =
     (case s of
        [] \<Rightarrow> 0
      | c # cs \<Rightarrow> if c = CHR ''-'' then - int (digitsValue cs) else int (digitsValue s))"

text \<open>A loop whose body may panic: the first panic ends it.\<close>

fun forEach :: "('a \<Rightarrow> 'st \<Rightarrow> panic + 'st) \<Rightarrow> 'a list \<Rightarrow> 'st \<Rightarrow> panic + 'st" where
  "forEach body [] st = Inr st"
| "forEach body (x # xs) st =
     (case body x st of Inl p \<Rightarrow> Inl p | Inr st' \<Rightarrow> forEach body xs st')"

section \<open>The HTTP start-stop collector\<close>

text \<open>
  Modelled from the spec: the store, of which the collectors use the two batches it
  returns (\<^verbatim>\<open>GetHttpStartStops\<close>, \<^verbatim>\<open>GetValueMetrics\<close>), and the record type
  \<^verbatim>\<open>metrics.ValueMetric\<close>.
\<close>

record 'f ValueMetric =
  Origin :: string
  Deployment :: string
  Job :: string
  Index :: string
  IP :: string
  Name :: string
  Value :: 'f
  Unit :: string
  Tags :: "(string \<times> string) list"

record 'f Store =
  GetHttpStartStops :: "HttpStartStop list"
  GetValueMetrics :: "'f ValueMetric list"

record 'f HttpStartStopCollector =
  namespace :: string
  metricsStore :: "'f Store"
  requestTotalDesc :: Desc
  responseSizeBytesDesc :: Desc
  clientRequestDurationNanosecondsDesc :: Desc
  serverRequestDurationNanosecondsDesc :: Desc

definition NewHttpStartStopCollector :: "string \<Rightarrow> 'f Store \<Rightarrow> 'f HttpStartStopCollector" where
  "NewHttpStartStopCollector ns metricsStore' =
     \<lparr>namespace = ns,
      metricsStore = metricsStore',
      requestTotalDesc =
        NewDesc (BuildFQName ns http_start_stop_subsystem ''request_total'')
          ''Cloud Foundry Firehose http start stop total requests.''
          [''application_id'', ''instance_id'', ''uri'', ''method'', ''status_code''] [],
      responseSizeBytesDesc =
        NewDesc (BuildFQName ns http_start_stop_subsystem ''response_size_bytes'')
          ''Cloud Foundry Firehose http start stop request size in bytes.''
          [''application_id'', ''instance_id'', ''uri'', ''method''] [],
      clientRequestDurationNanosecondsDesc =
        NewDesc (BuildFQName ns http_start_stop_subsystem ''client_request_duration_nanoseconds'')
          ''Cloud Foundry Firehose http start stop client request duration in nanoseconds.''
          [''application_id'', ''instance_id'', ''uri'', ''method''] [],
      serverRequestDurationNanosecondsDesc =
        NewDesc (BuildFQName ns http_start_stop_subsystem ''server_request_duration_nanoseconds'')
          ''Cloud Foundry Firehose http start stop server request duration in nanoseconds.''
          [''application_id'', ''instance_id'', ''uri'', ''method''] []\<rparr>"

text \<open>
  The emitting functions pass the state they can reach: the tree and the channel
  \<open>ch\<close>, the list of the observations sent so far. In this section reading a stream
  (\<open>Samples\<close>, \<open>Query\<close>, \<open>Count\<close>) is without effect on it, as the spec says of the sketch;
  the walk in which a read may change the stream is \<open>reportMetricsS\<close> below, which is this
  one when the reads are without effect.
\<close>

definition send :: "'f Metric list \<Rightarrow> panic + 'f Metric \<Rightarrow> panic + 'f Metric list" where
  "send ch r = (case r of Inl p \<Rightarrow> Inl p | Inr m \<Rightarrow> Inr (ch @ [m]))"

definition reportRequestTotal ::
  "'f HttpStartStopCollector \<Rightarrow> ('s, 'f) deps \<Rightarrow> 64 word \<Rightarrow> string \<Rightarrow> string \<Rightarrow> string \<Rightarrow> string
     \<Rightarrow> string \<Rightarrow> 'f Metric list \<Rightarrow> panic + 'f Metric list" where
  "reportRequestTotal c d requestTotal applicationID instanceID uri meth statusCode ch =
     send ch (MustNewConstMetric d (requestTotalDesc c) CounterValue
       (float64 d (sint requestTotal))
       [applicationID, instanceID, uri, meth, statusCode])"

definition samplesSum :: "'f::{zero,plus} Sample list \<Rightarrow> 'f" where
  "samplesSum samples = foldl (\<lambda>acc sample. acc + Sample.Value sample) 0 samples"

definition reportResponseSize ::
  "'f HttpStartStopCollector \<Rightarrow> ('s, 'f::{zero,plus}) deps \<Rightarrow> 's \<Rightarrow> string \<Rightarrow> string \<Rightarrow> string
     \<Rightarrow> string \<Rightarrow> 'f Metric list \<Rightarrow> panic + 'f Metric list" where
  "reportResponseSize c d responseSize applicationID instanceID uri meth ch =
     (let responseSizeSum = samplesSum (Samples d responseSize);
          responseSizeQuantiles =
            [(0.50, Query d responseSize 0.50),
             (0.90, Query d responseSize 0.90),
             (0.99, Query d responseSize 0.99)]
      in send ch (MustNewConstSummary d (responseSizeBytesDesc c)
           (word_of_int (Count d responseSize)) responseSizeSum responseSizeQuantiles
           [applicationID, instanceID, uri, meth]))"

definition reportClientRequestDuration ::
  "'f HttpStartStopCollector \<Rightarrow> ('s, 'f::{zero,plus}) deps \<Rightarrow> 's \<Rightarrow> string \<Rightarrow> string \<Rightarrow> string
     \<Rightarrow> string \<Rightarrow> 'f Metric list \<Rightarrow> panic + 'f Metric list" where
  "reportClientRequestDuration c d clientRequestDuration applicationID instanceID uri meth ch =
     (let clientRequestDurationSum = samplesSum (Samples d clientRequestDuration);
          clientRequestDurationQuantiles =
            [(0.50, Query d clientRequestDuration 0.50),
             (0.90, Query d clientRequestDuration 0.90),
             (0.99, Query d clientRequestDuration 0.99)]
      in send ch (MustNewConstSummary d (clientRequestDurationNanosecondsDesc c)
           (word_of_int (Count d clientRequestDuration)) clientRequestDurationSum
           clientRequestDurationQuantiles
           [applicationID, instanceID, uri, meth]))"

definition reportServerRequestDuration ::
  "'f HttpStartStopCollector \<Rightarrow> ('s, 'f::{zero,plus}) deps \<Rightarrow> 's \<Rightarrow> string \<Rightarrow> string \<Rightarrow> string
     \<Rightarrow> string \<Rightarrow> 'f Metric list \<Rightarrow> panic + 'f Metric list" where
  "reportServerRequestDuration c d serverRequestDuration applicationID instanceID uri meth ch =
     (let serverRequestDurationSum = samplesSum (Samples d serverRequestDuration);
          serverRequestDurationQuantiles =
            [(0.50, Query d serverRequestDuration 0.50),
             (0.90, Query d serverRequestDuration 0.90),
             (0.99, Query d serverRequestDuration 0.99)]
      in send ch (MustNewConstSummary d (serverRequestDurationNanosecondsDesc c)
           (word_of_int (Count d serverRequestDuration)) serverRequestDurationSum
           serverRequestDurationQuantiles
           [applicationID, instanceID, uri, meth]))"

text \<open>The body of the innermost loop of \<^verbatim>\<open>reportMetrics\<close>, for one leaf.\<close>

definition andThen :: "panic + 'a \<Rightarrow> ('a \<Rightarrow> panic + 'b) \<Rightarrow> panic + 'b" where
  "andThen r k = (case r of Inl p \<Rightarrow> Inl p | Inr x \<Rightarrow> k x)"

definition reportLeaf ::
  "'f HttpStartStopCollector \<Rightarrow> ('s, 'f::{zero,plus}) deps \<Rightarrow> string \<Rightarrow> string \<Rightarrow> string
     \<Rightarrow> string \<Rightarrow> 's Method \<Rightarrow> 'f Metric list \<Rightarrow> panic + 'f Metric list" where
  "reportLeaf c d applicationID instanceID uriKey methodKey meth ch =
     andThen (reportResponseSize c d (Method.ContentLength meth)
                applicationID instanceID uriKey methodKey ch) (\<lambda>ch.
     andThen (reportClientRequestDuration c d (Method.ClientDuration meth)
                applicationID instanceID uriKey methodKey ch) (\<lambda>ch.
     andThen (reportServerRequestDuration c d (Method.ServerDuration meth)
                applicationID instanceID uriKey methodKey ch) (\<lambda>ch.
     forEach (\<lambda>(statusCode, requestTotal) ch.
                reportRequestTotal c d requestTotal applicationID instanceID uriKey methodKey
                  (Itoa (sint statusCode)) ch)
       (StatusCodes meth) ch)))"

definition reportLoops ::
  "'f HttpStartStopCollector \<Rightarrow> ('s, 'f::{zero,plus}) deps \<Rightarrow> 's Applications
     \<Rightarrow> 'f Metric list \<Rightarrow> panic + 'f Metric list" where
  "reportLoops c d applications ch =
     forEach (\<lambda>(applicationID, application).
       forEach (\<lambda>(instanceID, instance).
         forEach (\<lambda>(uriKey, uri).
           forEach (\<lambda>(methodKey, meth).
             reportLeaf c d applicationID instanceID uriKey methodKey meth)
           (Methods uri))
         (Uris instance))
       (Instances application))
     applications ch"

text \<open>
  \<^verbatim>\<open>reportMetrics\<close>: the four nested loops. It returns the tree as it is when the function
  returns, with the channel; no statement of the function assigns to the tree.
\<close>

definition reportMetrics ::
  "'f HttpStartStopCollector \<Rightarrow> ('s, 'f::{zero,plus}) deps \<Rightarrow> 's Applications
     \<Rightarrow> 'f Metric list \<Rightarrow> panic + ('s Applications \<times> 'f Metric list)" where
  "reportMetrics c d applications ch =
     andThen (reportLoops c d applications ch) (\<lambda>ch. Inr (applications, ch))"

definition HttpStartStopCollector_Collect ::
  "'f HttpStartStopCollector \<Rightarrow> ('s, 'f::{zero,plus}) deps
     \<Rightarrow> 'f Metric list \<Rightarrow> panic + ('s Applications \<times> 'f Metric list)" where
  "HttpStartStopCollector_Collect c d ch =
     (let applications =
            calculateMetrics d (GetHttpStartStops (HttpStartStopCollector.metricsStore c))
      in reportMetrics c d applications ch)"

section \<open>The value metrics collector\<close>

record 'f ValueMetricsCollector =
  namespace :: string
  environment :: string
  metricsStore :: "'f Store"
  valueMetricsCollectorDesc :: Desc

definition NewValueMetricsCollector ::
  "string \<Rightarrow> string \<Rightarrow> 'f Store \<Rightarrow> 'f ValueMetricsCollector" where
  "NewValueMetricsCollector ns env metricsStore' =
     \<lparr>namespace = ns,
      environment = env,
      metricsStore = metricsStore',
      valueMetricsCollectorDesc =
        NewDesc (BuildFQName ns value_metrics_subsystem ''collector'')
          ''Cloud Foundry Firehose value metrics collector.''
          [] [(''environment'', env)]\<rparr>"

text \<open>The state of \<^verbatim>\<open>Collect\<close>: the channel and the error log.\<close>

record 'f emission =
  sent :: "'f Metric list"
  logged :: "string list"

text \<open>
  The labels of one value metric: the six fixed ones, then one per tag, in the order of
  the \<^verbatim>\<open>range\<close> over the tags.
\<close>

definition valueMetricLabels ::
  "('s, 'f) deps \<Rightarrow> 'f ValueMetric \<Rightarrow> string list \<times> string list" where
  "valueMetricLabels d valueMetric =
     foldl (\<lambda>(constLabels, labelValues) (k, v).
              (constLabels @ [NormalizeName d k], labelValues @ [v]))
       ([''origin'', ''bosh_deployment'', ''bosh_job_name'', ''bosh_job_id'', ''bosh_job_ip'',
         ''unit''],
        [Origin valueMetric, Deployment valueMetric, Job valueMetric, Index valueMetric,
         IP valueMetric, Unit valueMetric])
       (Tags valueMetric)"

definition valueMetricDesc ::
  "'f ValueMetricsCollector \<Rightarrow> ('s, 'f) deps \<Rightarrow> 'f ValueMetric \<Rightarrow> Desc" where
  "valueMetricDesc c d valueMetric =
     (let metricName =
            NormalizeName d (Origin valueMetric) @ ''_'' @ NormalizeName d (Name valueMetric)
      in NewDesc
           (BuildFQName (ValueMetricsCollector.namespace c) value_metrics_subsystem metricName)
           (''Cloud Foundry Firehose '' @ [CHR 0x27] @ NormalizeNameDesc d (Name valueMetric)
              @ [CHR 0x27] @ '' value metric from '' @ [CHR 0x27]
              @ NormalizeOriginDesc d (Origin valueMetric) @ [CHR 0x27] @ ''.'')
           (fst (valueMetricLabels d valueMetric))
           [(''environment'', environment c)])"

text \<open>The body of the loop of \<^verbatim>\<open>ValueMetricsCollector.Collect\<close>, for one value metric.\<close>

definition collectValueMetric ::
  "'f ValueMetricsCollector \<Rightarrow> ('s, 'f) deps \<Rightarrow> 'f emission \<Rightarrow> 'f ValueMetric \<Rightarrow> 'f emission" where
  "collectValueMetric c d st valueMetric =
     (case NewConstMetric d (valueMetricDesc c d valueMetric) GaugeValue
             (ValueMetric.Value valueMetric) (snd (valueMetricLabels d valueMetric)) of
        Inl err \<Rightarrow>
          st\<lparr>logged := logged st @
            [''Value Metric `'' @ Name valueMetric @ ''` from `'' @ Origin valueMetric
               @ ''` discarded: '' @ err]\<rparr>
      | Inr vm \<Rightarrow> st\<lparr>sent := sent st @ [vm]\<rparr>)"

text \<open>
  \<^verbatim>\<open>ValueMetricsCollector.Collect\<close>. It returns the batch as it is when the function
  returns, with the channel and the log; no statement of the function assigns to the
  batch.
\<close>

definition ValueMetricsCollector_Collect ::
  "'f ValueMetricsCollector \<Rightarrow> ('s, 'f) deps \<Rightarrow> 'f emission
     \<Rightarrow> 'f ValueMetric list \<times> 'f emission" where
  "ValueMetricsCollector_Collect c d st =
     (let valueMetrics = GetValueMetrics (ValueMetricsCollector.metricsStore c)
      in (valueMetrics, foldl (collectValueMetric c d) st valueMetrics))"

text \<open>
  The older collector \<^verbatim>\<open>valueMetricsCollector\<close> (lower case), kept beside the vendored
  sources: six fixed labels, no tags, and \<^verbatim>\<open>MustNewConstMetric\<close>. Its \<^verbatim>\<open>namespace\<close> is a
  variable of the package, here the first argument.
\<close>

definition valueMetricsCollector_Collect ::
  "string \<Rightarrow> ('s, 'f) deps \<Rightarrow> 'f ValueMetric list \<Rightarrow> 'f Metric list \<Rightarrow> panic + 'f Metric list" where
  "valueMetricsCollector_Collect ns d valueMetrics ch =
     forEach (\<lambda>valueMetric ch.
       send ch (MustNewConstMetric d
         (NewDesc
            (BuildFQName ns value_metrics_subsystem (NormalizeName d (Name valueMetric)))
            (''Cloud Foundry firehose '' @ [CHR 0x27] @ Name valueMetric @ [CHR 0x27]
               @ '' value metric.'')
            [''origin'', ''deployment'', ''job'', ''index'', ''ip'', ''unit''] [])
         GaugeValue (ValueMetric.Value valueMetric)
         [Origin valueMetric, Deployment valueMetric, Job valueMetric, Index valueMetric,
          IP valueMetric, Unit valueMetric]))
     valueMetrics ch"

section \<open>The observations of a leaf, as the spec states them\<close>

text \<open>
  For one leaf: a summary for each of the three sketches, carrying the sketch's count, the
  sum of the values of its samples and the estimates of the three quantiles, and a counter
  for each entry of the status-code map, carrying the code as fifth label and its count
  as value. \<open>accepts\<close> says that the exposition layer reports no conflict for a
  descriptor with label values of the given number.
\<close>

definition summaryOf :: "('s, 'f::{zero,plus}) deps \<Rightarrow> Desc \<Rightarrow> path \<Rightarrow> 's \<Rightarrow> 'f Metric" where
  "summaryOf d desc p s =
     (case p of (a, i, u, m) \<Rightarrow>
        ConstSummary desc (word_of_int (Count d s)) (samplesSum (Samples d s))
          [(0.50, Query d s 0.50), (0.90, Query d s 0.90), (0.99, Query d s 0.99)]
          [a, i, u, m])"

definition counterOf ::
  "'f HttpStartStopCollector \<Rightarrow> ('s, 'f) deps \<Rightarrow> path \<Rightarrow> 32 word \<times> 64 word \<Rightarrow> 'f Metric" where
  "counterOf c d p kn =
     (case (p, kn) of ((a, i, u, m), (k, n)) \<Rightarrow>
        ConstMetric (requestTotalDesc c) CounterValue (float64 d (sint n))
          [a, i, u, m, Itoa (sint k)])"

definition leafObservations ::
  "'f HttpStartStopCollector \<Rightarrow> ('s, 'f::{zero,plus}) deps \<Rightarrow> path \<Rightarrow> 's Method \<Rightarrow> 'f Metric list" where
  "leafObservations c d p meth =
     [summaryOf d (responseSizeBytesDesc c) p (Method.ContentLength meth),
      summaryOf d (clientRequestDurationNanosecondsDesc c) p (Method.ClientDuration meth),
      summaryOf d (serverRequestDurationNanosecondsDesc c) p (Method.ServerDuration meth)]
     @ map (counterOf c d p) (StatusCodes meth)"

definition accepts :: "('s, 'f) deps \<Rightarrow> Desc \<Rightarrow> nat \<Rightarrow> bool" where
  "accepts d desc n \<longleftrightarrow> (\<forall>labelValues. length labelValues = n \<longrightarrow> conflict d desc labelValues = None)"

definition acceptsHttp :: "('s, 'f) deps \<Rightarrow> 'f HttpStartStopCollector \<Rightarrow> bool" where
  "acceptsHttp d c \<longleftrightarrow>
     accepts d (requestTotalDesc c) 5 \<and> accepts d (responseSizeBytesDesc c) 4 \<and>
     accepts d (clientRequestDurationNanosecondsDesc c) 4 \<and>
     accepts d (serverRequestDurationNanosecondsDesc c) 4"

text \<open>
  For one value metric: whether the exposition layer constructs its gauge, the gauge as
  the collector builds it, and the line logged when it does not. \<open>withBatch\<close> is a collector
  whose store returns the given batch.
\<close>

definition constructed :: "'f ValueMetricsCollector \<Rightarrow> ('s, 'f) deps \<Rightarrow> 'f ValueMetric \<Rightarrow> bool" where
  "constructed c d valueMetric \<longleftrightarrow>
     conflict d (valueMetricDesc c d valueMetric) (snd (valueMetricLabels d valueMetric)) = None"

definition gaugeOf :: "'f ValueMetricsCollector \<Rightarrow> ('s, 'f) deps \<Rightarrow> 'f ValueMetric \<Rightarrow> 'f Metric" where
  "gaugeOf c d valueMetric =
     ConstMetric
       \<lparr>fqName = ValueMetricsCollector.namespace c @ ''_value_metrics_''
          @ NormalizeName d (Origin valueMetric) @ ''_'' @ NormalizeName d (Name valueMetric),
        helpText = ''Cloud Foundry Firehose '' @ [CHR 0x27] @ NormalizeNameDesc d (Name valueMetric)
          @ [CHR 0x27] @ '' value metric from '' @ [CHR 0x27]
          @ NormalizeOriginDesc d (Origin valueMetric) @ [CHR 0x27] @ ''.'',
        variableLabels =
          [''origin'', ''bosh_deployment'', ''bosh_job_name'', ''bosh_job_id'', ''bosh_job_ip'',
           ''unit''] @ map (\<lambda>(k, v). NormalizeName d k) (Tags valueMetric),
        constLabels = [(''environment'', environment c)]\<rparr>
       GaugeValue (ValueMetric.Value valueMetric)
       ([Origin valueMetric, Deployment valueMetric, Job valueMetric, Index valueMetric,
         IP valueMetric, Unit valueMetric] @ map (\<lambda>(k, v). v) (Tags valueMetric))"

definition discardMessage :: "'f ValueMetricsCollector \<Rightarrow> ('s, 'f) deps \<Rightarrow> 'f ValueMetric \<Rightarrow> string" where
  "discardMessage c d valueMetric =
     ''Value Metric `'' @ Name valueMetric @ ''` from `'' @ Origin valueMetric
       @ ''` discarded: ''
       @ (case conflict d (valueMetricDesc c d valueMetric) (snd (valueMetricLabels d valueMetric)) of
            Some err \<Rightarrow> err | None \<Rightarrow> [])"

definition withBatch :: "'f ValueMetricsCollector \<Rightarrow> 'f ValueMetric list \<Rightarrow> 'f ValueMetricsCollector" where
  "withBatch c valueMetrics =
     c\<lparr>ValueMetricsCollector.metricsStore :=
         (ValueMetricsCollector.metricsStore c)\<lparr>GetValueMetrics := valueMetrics\<rparr>\<rparr>"

text \<open>The state before anything is sent or logged, and the descriptor of an observation.\<close>

definition noEmission :: "'f emission" where
  "noEmission = \<lparr>sent = [], logged = []\<rparr>"

definition metricDesc :: "'f Metric \<Rightarrow> Desc" where
  "metricDesc m = (case m of ConstMetric desc vt v lvs \<Rightarrow> desc | ConstSummary desc n s qs lvs \<Rightarrow> desc)"

text \<open>The gauge that the older collector builds for one value metric.\<close>

definition legacyGauge :: "string \<Rightarrow> ('s, 'f) deps \<Rightarrow> 'f ValueMetric \<Rightarrow> 'f Metric" where
  "legacyGauge ns d valueMetric =
     ConstMetric
       \<lparr>fqName = ns @ ''_value_metrics_'' @ NormalizeName d (Name valueMetric),
        helpText = ''Cloud Foundry firehose '' @ [CHR 0x27] @ Name valueMetric @ [CHR 0x27]
          @ '' value metric.'',
        variableLabels = [''origin'', ''deployment'', ''job'', ''index'', ''ip'', ''unit''],
        constLabels = []\<rparr>
       GaugeValue (ValueMetric.Value valueMetric)
       [Origin valueMetric, Deployment valueMetric, Job valueMetric, Index valueMetric,
        IP valueMetric, Unit valueMetric]"

text \<open>A collector for Scenario A, and the observations expected of it.\<close>

definition firehose :: "real HttpStartStopCollector" where
  "firehose = NewHttpStartStopCollector ''firehose''
     \<lparr>GetHttpStartStops = scenarioA, GetValueMetrics = []\<rparr>"

definition scenarioAObservations :: "real Metric list" where
  "scenarioAObservations =
     [ConstSummary (responseSizeBytesDesc firehose) 3 300
        [(0.50, 100), (0.90, 100), (0.99, 100)] [''a1'', ''i1'', ''/x'', ''GET''],
      ConstSummary (clientRequestDurationNanosecondsDesc firehose) 3 150
        [(0.50, 50), (0.90, 50), (0.99, 50)] [''a1'', ''i1'', ''/x'', ''GET''],
      ConstSummary (serverRequestDurationNanosecondsDesc firehose) 3 120
        [(0.50, 40), (0.90, 40), (0.99, 40)] [''a1'', ''i1'', ''/x'', ''GET''],
      ConstMetric (requestTotalDesc firehose) CounterValue 2
        [''a1'', ''i1'', ''/x'', ''GET'', ''200''],
      ConstMetric (requestTotalDesc firehose) CounterValue 1
        [''a1'', ''i1'', ''/x'', ''GET'', ''500'']]"

text \<open>
  Scenario C of the spec: a value metric with one tag, and one whose tag is named like a
  fixed label, for which the exposition layer reports a conflict.
\<close>

definition scenarioC :: "real ValueMetric" where
  "scenarioC =
     \<lparr>Origin = ''doppler'', Deployment = ''cf'', Job = ''doppler'', Index = ''0'',
      IP = ''10.0.0.1'', Name = ''memory'', Value = 1024, Unit = ''bytes'',
      Tags = [(''az'', ''z1'')]\<rparr>"

definition scenarioCConflict :: "real ValueMetric" where
  "scenarioCConflict = scenarioC\<lparr>Name := ''cpu'', Tags := [(''origin'', ''x'')]\<rparr>"

definition valueCollector :: "real ValueMetric list \<Rightarrow> real ValueMetricsCollector" where
  "valueCollector valueMetrics =
     NewValueMetricsCollector ''firehose'' ''prod''
       \<lparr>GetHttpStartStops = [], GetValueMetrics = valueMetrics\<rparr>"

definition scenarioCGauge :: "real Metric" where
  "scenarioCGauge =
     ConstMetric
       \<lparr>fqName = ''firehose_value_metrics_doppler_memory'',
        helpText = ''Cloud Foundry Firehose '' @ [CHR 0x27] @ ''memory'' @ [CHR 0x27]
          @ '' value metric from '' @ [CHR 0x27] @ ''doppler'' @ [CHR 0x27] @ ''.'',
        variableLabels =
          [''origin'', ''bosh_deployment'', ''bosh_job_name'', ''bosh_job_id'', ''bosh_job_ip'',
           ''unit'', ''az''],
        constLabels = [(''environment'', ''prod'')]\<rparr>
       GaugeValue 1024
       [''doppler'', ''cf'', ''doppler'', ''0'', ''10.0.0.1'', ''bytes'', ''z1'']"

section \<open>The walk with the state of the streams\<close>

text \<open>
  The methods of \<^verbatim>\<open>*quantile.Stream\<close> have a pointer receiver, so a read may change the
  stream it reads. Here the three reads the collector performs are parameters that return
  their result together with the stream as the call leaves it.
\<close>

record ('s, 'f) reads =
  doSamples :: "'s \<Rightarrow> 'f Sample list \<times> 's"
  doQuery :: "'s \<Rightarrow> real \<Rightarrow> 'f \<times> 's"
  doCount :: "'s \<Rightarrow> int \<times> 's"



text \<open>The stream after the five reads, and a leaf after the reads of its three streams.\<close>

definition afterReads :: "('s, 'f) reads \<Rightarrow> 's \<Rightarrow> 's" where
  "afterReads rd s0 =
     (let s1 = snd (doSamples rd s0);
          s2 = snd (doQuery rd s1 0.50);
          s3 = snd (doQuery rd s2 0.90);
          s4 = snd (doQuery rd s3 0.99)
      in snd (doCount rd s4))"

definition readMethod :: "('s, 'f) reads \<Rightarrow> 's Method \<Rightarrow> 's Method" where
  "readMethod rd meth =
     \<lparr>StatusCodes = StatusCodes meth,
      ContentLength = afterReads rd (Method.ContentLength meth),
      ClientDuration = afterReads rd (Method.ClientDuration meth),
      ServerDuration = afterReads rd (Method.ServerDuration meth)\<rparr>"








text \<open>
  An instance of the parameters whose reads are not without effect: a stream of bounded
  memory that holds (value, width) tuples in the order of the values. An insert adds a
  tuple of width 1; a read of the samples or of a quantile first merges, while more than
  two tuples are held, the last two tuples into one with the larger value and the sum of
  the widths, and then answers from the tuples that remain.
\<close>

record BStream =
  keptB :: "(real \<times> nat) list"
  insertsB :: nat


fun mergeLast :: "(real \<times> nat) list \<Rightarrow> (real \<times> nat) list" where
  "mergeLast [(v, g), (w, h)] = [(w, g + h)]"
| "mergeLast (t # u # x # ts) = t # mergeLast (u # x # ts)"
| "mergeLast ts = ts"

definition compressB :: "BStream \<Rightarrow> BStream" where
  "compressB s = (if length (keptB s) > 2 then s\<lparr>keptB := mergeLast (keptB s)\<rparr> else s)"

fun valueAtB :: "nat \<Rightarrow> nat \<Rightarrow> (real \<times> nat) list \<Rightarrow> real" where
  "valueAtB r acc [] = 0"
| "valueAtB r acc [(v, g)] = v"
| "valueAtB r acc ((v, g) # t # ts) = (if r \<le> acc + g then v else valueAtB r (acc + g) (t # ts))"

definition boundedReads :: "(BStream, real) reads" where
  "boundedReads =
     \<lparr>doSamples = (\<lambda>s. let s' = compressB s
                       in (ranked 0 (map (\<lambda>(v, g). (v, g, 0)) (keptB s')), s')),
      doQuery = (\<lambda>s q. let s' = compressB s
                       in (valueAtB (nat \<lceil>q * real (insertsB s')\<rceil>) 0 (keptB s'), s')),
      doCount = (\<lambda>s. (int (insertsB s), s))\<rparr>"







section \<open>Properties of the maps\<close>


lemma map_of_store: "map_of (store k v m) = (map_of m)(k \<mapsto> v)"
  by (induction k v m rule: store.induct) (auto simp: fun_eq_iff)

lemma keys_store: "fst ` set (store k v m) = insert k (fst ` set m)"
  by (induction k v m rule: store.induct) auto

lemma distinct_store: "distinct (map fst m) \<Longrightarrow> distinct (map fst (store k v m))"
  by (induction k v m rule: store.induct) (auto simp: keys_store)

lemma set_store: "set (store k v m) \<subseteq> insert (k, v) (set m)"
  by (induction k v m rule: store.induct) auto

lemma map_of_tag:
  "map_of (map (\<lambda>(p, x). ((k', p), x)) xs) (k, p) = (if k = k' then map_of xs p else None)"
  by (induction xs) auto

lemma flatten_Nil: "flatten [] g = []"
  by (simp add: flatten_def)

lemma flatten_Cons: "flatten ((k, v) # m) g = map (\<lambda>(p, x). ((k, p), x)) (g v) @ flatten m g"
  by (simp add: flatten_def)

lemma in_flatten:
  "((k, p), x) \<in> set (flatten m g) \<longleftrightarrow> (\<exists>v. (k, v) \<in> set m \<and> (p, x) \<in> set (g v))"
  by (induction m) (auto simp: flatten_Cons flatten_Nil)

lemma keys_flatten:
  "(k, p) \<in> fst ` set (flatten m g) \<longleftrightarrow> (\<exists>v. (k, v) \<in> set m \<and> p \<in> fst ` set (g v))"
proof -
  have "(k, p) \<in> fst ` set (flatten m g) \<longleftrightarrow> (\<exists>x. ((k, p), x) \<in> set (flatten m g))"
    by force
  also have "\<dots> \<longleftrightarrow> (\<exists>v. (k, v) \<in> set m \<and> p \<in> fst ` set (g v))"
    unfolding in_flatten by force
  finally show ?thesis .
qed

lemma distinct_flatten:
  "distinct (map fst m) \<Longrightarrow> (\<forall>(k, v) \<in> set m. distinct (map fst (g v))) \<Longrightarrow>
   distinct (map fst (flatten m g))"
proof (induction m)
  case Nil
  then show ?case by (simp add: flatten_def)
next
  case (Cons kv m)
  obtain k v where kv: "kv = (k, v)" by (cases kv)
  have split: "flatten (kv # m) g = map (\<lambda>(p, x). ((k, p), x)) (g v) @ flatten m g"
    by (simp add: flatten_Cons kv)
  have d1: "distinct (map fst (map (\<lambda>(p, x). ((k, p), x)) (g v)))"
  proof -
    have "map fst (map (\<lambda>(p, x). ((k, p), x)) (g v)) = map (Pair k) (map fst (g v))"
      by (simp add: case_prod_unfold)
    moreover have "distinct (map fst (g v))" using Cons.prems(2) kv by simp
    ultimately show ?thesis by (simp add: distinct_map inj_on_def)
  qed
  have d2: "distinct (map fst (flatten m g))"
    using Cons by simp
  have d3: "set (map fst (map (\<lambda>(p, x). ((k, p), x)) (g v))) \<inter> fst ` set (flatten m g) = {}"
  proof -
    have "k \<notin> fst ` set m" using Cons.prems(1) kv by simp
    then have "\<And>p x. ((k, p), x) \<notin> set (flatten m g)"
      unfolding in_flatten by force
    then show ?thesis by auto
  qed
  show ?case unfolding split using d1 d2 d3 by simp
qed

lemma map_of_flatten:
  "distinct (map fst m) \<Longrightarrow>
   map_of (flatten m g) (k, p) = (case map_of m k of None \<Rightarrow> None | Some v \<Rightarrow> map_of (g v) p)"
proof (induction m)
  case Nil
  then show ?case by (simp add: flatten_def)
next
  case (Cons kv m)
  obtain k' v where kv: "kv = (k', v)" by (cases kv)
  have split: "flatten (kv # m) g = map (\<lambda>(p, x). ((k', p), x)) (g v) @ flatten m g"
    by (simp add: flatten_Cons kv)
  have inner: "map_of (map (\<lambda>(p, x). ((k', p), x)) (g v)) (k, p) =
      (if k = k' then map_of (g v) p else None)"
    by (rule map_of_tag)
  show ?case
  proof (cases "k = k'")
    case True
    have "k' \<notin> fst ` set m" using Cons.prems kv by simp
    then have "map_of m k' = None" by (simp add: map_of_eq_None_iff)
    moreover have "map_of (flatten m g) (k', p) = None"
      using \<open>k' \<notin> fst ` set m\<close> unfolding map_of_eq_None_iff keys_flatten
      by force
    ultimately show ?thesis
      unfolding split using True inner kv by (simp add: map_add_def split: option.splits)
  next
    case False
    then show ?thesis
      unfolding split using inner kv Cons by (simp add: map_add_def)
  qed
qed


lemma all_store:
  "\<forall>(k, v) \<in> set m. P v \<Longrightarrow> P v' \<Longrightarrow> \<forall>(k, v) \<in> set (store k' v' m). P v"
  using set_store [of k' v' m] by auto

lemma map_of_wf:
  "\<forall>(k, v) \<in> set m. P v \<Longrightarrow> map_of m k = Some v \<Longrightarrow> P v"
  by (auto dest: map_of_SomeD)

lemma lookup_default:
  "\<forall>(k, v) \<in> set m. P v \<Longrightarrow> P dflt \<Longrightarrow> P (case map_of m k of None \<Rightarrow> dflt | Some v \<Rightarrow> v)"
  by (auto split: option.splits dest: map_of_SomeD)

lemma wfTree_empty: "wfTree []"
  by (simp add: wfTree_def)

lemma wfTree_step:
  assumes "wfTree applications"
  shows "wfTree (calculateStep d applications r)"
proof (cases "ApplicationId r = []")
  case True
  then show ?thesis using assms by (simp add: calculateStep_def)
next
  case False
  define application where "application =
    (case map_of applications (ApplicationId r) of None \<Rightarrow> \<lparr>Instances = []\<rparr> | Some a \<Rightarrow> a)"
  define inst where "inst =
    (case map_of (Instances application) (InstanceId r) of None \<Rightarrow> \<lparr>Uris = []\<rparr> | Some i \<Rightarrow> i)"
  define uri where "uri =
    (case map_of (Uris inst) (HttpStartStop.Uri r) of None \<Rightarrow> \<lparr>Methods = []\<rparr> | Some u \<Rightarrow> u)"
  define meth where "meth =
    (case map_of (Methods uri) (HttpStartStop.Method r) of None \<Rightarrow> newMethod d | Some m \<Rightarrow> m)"
  define uri' where "uri' =
    \<lparr>Methods = store (HttpStartStop.Method r) (recordMethod d r meth) (Methods uri)\<rparr>"
  define inst' where "inst' =
    \<lparr>Uris = store (HttpStartStop.Uri r) uri' (Uris inst)\<rparr>"
  define application' where "application' =
    \<lparr>Instances = store (InstanceId r) inst' (Instances application)\<rparr>"
  have step: "calculateStep d applications r = store (ApplicationId r) application' applications"
    using False
    by (simp add: calculateStep_def Let_def application_def inst_def uri_def meth_def
        uri'_def inst'_def application'_def)
  have wa: "wfApplication application"
    unfolding application_def
    by (rule lookup_default) (use assms in \<open>simp_all add: wfTree_def wfApplication_def\<close>)
  have wi: "wfInstance inst"
    unfolding inst_def
    by (rule lookup_default) (use wa in \<open>simp_all add: wfApplication_def wfInstance_def\<close>)
  have wu: "distinct (map fst (Methods uri))"
    unfolding uri_def
    by (rule lookup_default [where P = "\<lambda>u. distinct (map fst (Methods u))"])
       (use wi in \<open>simp_all add: wfInstance_def\<close>)
  have wu': "distinct (map fst (Methods uri'))"
    using wu by (simp add: uri'_def distinct_store)
  have wi': "wfInstance inst'"
    using wi wu' set_store [of "HttpStartStop.Uri r" uri' "Uris inst"]
    by (auto simp: wfInstance_def inst'_def distinct_store)
  have wa': "wfApplication application'"
    using wa wi' set_store [of "InstanceId r" inst' "Instances application"]
    by (auto simp: wfApplication_def application'_def distinct_store)
  show ?thesis
    unfolding step
    using assms wa' set_store [of "ApplicationId r" application' applications]
    by (auto simp: wfTree_def distinct_store)
qed

lemma wfTree_calculateMetrics_aux: "wfTree applications \<Longrightarrow> wfTree (foldl (calculateStep d) applications rs)"
  by (induction rs arbitrary: applications) (simp_all add: wfTree_step)

lemma wfTree_calculateMetrics: "wfTree (calculateMetrics d rs)"
  by (simp add: calculateMetrics_def wfTree_calculateMetrics_aux wfTree_empty)

lemma leaf_step:
  fixes applications :: "'s Applications"
  shows "leaf (calculateStep d applications r) p =
     (if ApplicationId r \<noteq> [] \<and> pathOf r = p
      then Some (recordMethod d r (case leaf applications p of None \<Rightarrow> newMethod d | Some m \<Rightarrow> m))
      else leaf applications p)"
proof (cases "ApplicationId r = []")
  case True
  then show ?thesis by (simp add: calculateStep_def)
next
  case False
  obtain a i u m where p: "p = (a, i, u, m)" by (cases p) auto
  define application where "application =
    (case map_of applications (ApplicationId r) of None \<Rightarrow> \<lparr>Instances = []\<rparr> | Some a \<Rightarrow> a)"
  define inst where "inst =
    (case map_of (Instances application) (InstanceId r) of None \<Rightarrow> \<lparr>Uris = []\<rparr> | Some i \<Rightarrow> i)"
  define uri where "uri =
    (case map_of (Uris inst) (HttpStartStop.Uri r) of None \<Rightarrow> \<lparr>Methods = []\<rparr> | Some u \<Rightarrow> u)"
  define meth where "meth =
    (case map_of (Methods uri) (HttpStartStop.Method r) of None \<Rightarrow> newMethod d | Some m \<Rightarrow> m)"
  define uri' where "uri' =
    \<lparr>Methods = store (HttpStartStop.Method r) (recordMethod d r meth) (Methods uri)\<rparr>"
  define inst' where "inst' =
    \<lparr>Uris = store (HttpStartStop.Uri r) uri' (Uris inst)\<rparr>"
  define application' where "application' =
    \<lparr>Instances = store (InstanceId r) inst' (Instances application)\<rparr>"
  have step: "calculateStep d applications r = store (ApplicationId r) application' applications"
    using False
    by (simp add: calculateStep_def Let_def application_def inst_def uri_def meth_def
        uri'_def inst'_def application'_def)
  text \<open>Looking a path up below each of the four nodes on the record's path.\<close>
  define belowU where "belowU = (\<lambda>ur :: 's Uri. map_of (Methods ur) m)"
  define belowI where "belowI = (\<lambda>ins :: 's Instance.
     case map_of (Uris ins) u of None \<Rightarrow> None | Some ur \<Rightarrow> belowU ur)"
  define belowA where "belowA = (\<lambda>ap :: 's Application.
     case map_of (Instances ap) i of None \<Rightarrow> None | Some ins \<Rightarrow> belowI ins)"
  have old: "leaf applications p =
     (case map_of applications a of None \<Rightarrow> None | Some ap \<Rightarrow> belowA ap)"
    by (simp add: p leaf_def belowA_def belowI_def belowU_def split: option.splits)
  have new: "leaf (calculateStep d applications r) p =
     (if a = ApplicationId r then belowA application' else leaf applications p)"
    unfolding old unfolding step
    by (simp add: p leaf_def map_of_store belowA_def belowI_def belowU_def split: option.splits)
  have oldA: "a = ApplicationId r \<Longrightarrow> leaf applications p = belowA application"
    unfolding old application_def
    by (simp add: belowA_def split: option.splits)
  have newA: "belowA application' = (if i = InstanceId r then belowI inst' else belowA application)"
    by (simp add: belowA_def application'_def map_of_store)
  have oldI: "i = InstanceId r \<Longrightarrow> belowA application = belowI inst"
    unfolding inst_def by (simp add: belowA_def belowI_def split: option.splits)
  have newI: "belowI inst' = (if u = HttpStartStop.Uri r then belowU uri' else belowI inst)"
    by (simp add: belowI_def inst'_def map_of_store)
  have oldU: "u = HttpStartStop.Uri r \<Longrightarrow> belowI inst = belowU uri"
    unfolding uri_def by (simp add: belowI_def belowU_def split: option.splits)
  have newU: "belowU uri' =
     (if m = HttpStartStop.Method r then Some (recordMethod d r meth) else belowU uri)"
    by (simp add: belowU_def uri'_def map_of_store)
  have oldM: "m = HttpStartStop.Method r \<Longrightarrow>
     meth = (case belowU uri of None \<Rightarrow> newMethod d | Some m \<Rightarrow> m)"
    by (simp add: meth_def belowU_def)
  have path: "pathOf r = p \<longleftrightarrow>
     a = ApplicationId r \<and> i = InstanceId r \<and> u = HttpStartStop.Uri r \<and> m = HttpStartStop.Method r"
    by (auto simp: p pathOf_def)
  show ?thesis
  proof (cases "pathOf r = p")
    case True
    then have eq: "a = ApplicationId r" "i = InstanceId r" "u = HttpStartStop.Uri r"
      "m = HttpStartStop.Method r"
      using path by simp_all
    have "leaf (calculateStep d applications r) p = Some (recordMethod d r meth)"
      by (simp only: new newA newI newU eq if_True refl)
    moreover have "leaf applications p = belowU uri"
      by (simp only: oldA [OF eq(1)] oldI [OF eq(2)] oldU [OF eq(3)])
    ultimately show ?thesis
      unfolding oldM [OF eq(4)] using True False by (simp only: if_True simp_thms)
  next
    case neq: False
    have "leaf (calculateStep d applications r) p = leaf applications p"
    proof (cases "a = ApplicationId r")
      case a: True
      show ?thesis
      proof (cases "i = InstanceId r")
        case i: True
        show ?thesis
        proof (cases "u = HttpStartStop.Uri r")
          case u: True
          then have "m \<noteq> HttpStartStop.Method r" using neq path a i by blast
          then show ?thesis
            by (simp only: new newA newI newU a i u if_True if_False refl oldA [OF a] oldI [OF i] oldU [OF u])
        next
          case u: False
          then show ?thesis
            by (simp only: new newA newI a i if_True if_False refl oldA [OF a] oldI [OF i])
        qed
      next
        case i: False
        then show ?thesis
          by (simp only: new newA a if_True if_False refl oldA [OF a])
      qed
    next
      case False
      then show ?thesis by (simp only: new if_False)
    qed
    then show ?thesis using neq by (simp only: if_False simp_thms)
  qed
qed



section \<open>The leaves of the aggregated tree\<close>


lemma leaf_leaves:
  assumes "wfTree applications"
  shows "map_of (leaves applications) p = leaf applications p"
proof -
  obtain a i u m where p: "p = (a, i, u, m)" by (cases p) auto
  have top: "distinct (map fst applications)"
    using assms by (simp add: wfTree_def)
  have lvlA: "map_of (applicationLeaves ap) (i, u, m) =
      (case map_of (Instances ap) i of None \<Rightarrow> None
       | Some ins \<Rightarrow> (case map_of (Uris ins) u of None \<Rightarrow> None
       | Some ur \<Rightarrow> map_of (Methods ur) m))"
    if "map_of applications a = Some ap" for ap
  proof -
    have wa: "wfApplication ap"
      using assms that by (auto simp: wfTree_def dest: map_of_SomeD)
    have lvlI: "map_of (instanceLeaves ins) (u, m) =
        (case map_of (Uris ins) u of None \<Rightarrow> None | Some ur \<Rightarrow> map_of (Methods ur) m)"
      if "map_of (Instances ap) i = Some ins" for ins
    proof -
      have "wfInstance ins"
        using wa that by (auto simp: wfApplication_def dest: map_of_SomeD)
      then show ?thesis
        by (simp add: instanceLeaves_def map_of_flatten wfInstance_def)
    qed
    show ?thesis
      using wa lvlI
      by (simp add: applicationLeaves_def map_of_flatten wfApplication_def split: option.splits)
  qed
  show ?thesis
    using top lvlA by (simp add: p leaves_def leaf_def map_of_flatten split: option.splits)
qed

lemma distinct_leaves:
  assumes "wfTree applications"
  shows "distinct (map fst (leaves applications))"
  unfolding leaves_def
proof (rule distinct_flatten)
  show "distinct (map fst applications)" using assms by (simp add: wfTree_def)
  show "\<forall>(k, v)\<in>set applications. distinct (map fst (applicationLeaves v))"
  proof (clarify)
    fix a ap assume "(a, ap) \<in> set applications"
    then have wa: "wfApplication ap" using assms by (auto simp: wfTree_def)
    show "distinct (map fst (applicationLeaves ap))"
      unfolding applicationLeaves_def
    proof (rule distinct_flatten)
      show "distinct (map fst (Instances ap))" using wa by (simp add: wfApplication_def)
      show "\<forall>(k, v)\<in>set (Instances ap). distinct (map fst (instanceLeaves v))"
      proof (clarify)
        fix i ins assume "(i, ins) \<in> set (Instances ap)"
        then have wi: "wfInstance ins" using wa by (auto simp: wfApplication_def)
        show "distinct (map fst (instanceLeaves ins))"
          unfolding instanceLeaves_def
          by (rule distinct_flatten) (use wi in \<open>simp_all add: wfInstance_def\<close>)
      qed
    qed
  qed
qed

lemma contrib_Cons:
  "contrib (r # rs) p = (if ApplicationId r \<noteq> [] \<and> pathOf r = p then r # contrib rs p else contrib rs p)"
  by (simp add: contrib_def)

lemma leaf_fold:
  "leaf (foldl (calculateStep d) applications rs) p =
     (if contrib rs p = [] then leaf applications p
      else Some (recordAll d (case leaf applications p of None \<Rightarrow> newMethod d | Some m \<Rightarrow> m)
                   (contrib rs p)))"
proof (induction rs arbitrary: applications)
  case Nil
  then show ?case by (simp add: contrib_def)
next
  case (Cons r rs)
  have IH: "leaf (foldl (calculateStep d) (calculateStep d applications r) rs) p =
     (if contrib rs p = [] then leaf (calculateStep d applications r) p
      else Some (recordAll d (case leaf (calculateStep d applications r) p of
                   None \<Rightarrow> newMethod d | Some m \<Rightarrow> m) (contrib rs p)))"
    by (rule Cons)
  show ?case
  proof (cases "ApplicationId r \<noteq> [] \<and> pathOf r = p")
    case True
    have c: "contrib (r # rs) p = r # contrib rs p"
      using True by (simp add: contrib_Cons)
    have l: "leaf (calculateStep d applications r) p =
        Some (recordMethod d r (case leaf applications p of None \<Rightarrow> newMethod d | Some m \<Rightarrow> m))"
      using True by (simp add: leaf_step)
    show ?thesis
      unfolding foldl_Cons IH c l by (simp add: recordAll_def)
  next
    case False
    have c: "contrib (r # rs) p = contrib rs p"
      using False unfolding contrib_Cons by (rule if_not_P)
    have l: "leaf (calculateStep d applications r) p = leaf applications p"
      using False unfolding leaf_step by (rule if_not_P)
    show ?thesis
      unfolding foldl_Cons IH c l by (rule refl)
  qed
qed

lemma leaf_empty: "leaf [] p = None"
  by (cases p) (simp add: leaf_def)

lemma leaf_calculateMetrics:
  "leaf (calculateMetrics d rs) p =
     (if contrib rs p = [] then None else Some (recordAll d (newMethod d) (contrib rs p)))"
  by (simp add: calculateMetrics_def leaf_fold leaf_empty)

lemma contrib_empty_iff:
  "contrib rs p \<noteq> [] \<longleftrightarrow> p \<in> pathOf ` {r \<in> set rs. ApplicationId r \<noteq> []}"
  by (auto simp: contrib_def filter_empty_conv)

lemma keys_leaves:
  "fst ` set (leaves (calculateMetrics d rs)) = pathOf ` {r \<in> set rs. ApplicationId r \<noteq> []}"
proof -
  have "fst ` set (leaves (calculateMetrics d rs)) = dom (map_of (leaves (calculateMetrics d rs)))"
    by (simp add: dom_map_of_conv_image_fst)
  also have "\<dots> = dom (leaf (calculateMetrics d rs))"
    using leaf_leaves [OF wfTree_calculateMetrics, of d rs] by (simp add: dom_def)
  also have "\<dots> = pathOf ` {r \<in> set rs. ApplicationId r \<noteq> []}"
    unfolding dom_def leaf_calculateMetrics using contrib_empty_iff [of rs] by auto
  finally show ?thesis .
qed

lemma calculateStep_skip: "ApplicationId r = [] \<Longrightarrow> calculateStep d applications r = applications"
  by (simp add: calculateStep_def)

lemma calculateMetrics_skip_all:
  "\<forall>r \<in> set rs. ApplicationId r = [] \<Longrightarrow> foldl (calculateStep d) applications rs = applications"
  by (induction rs arbitrary: applications) (simp_all add: calculateStep_skip)


section \<open>Status codes and counts of a leaf\<close>

lemma map_of_incr:
  "map_of (incr k m) k' =
     (if k' = k then Some ((case map_of m k of None \<Rightarrow> 0 | Some n \<Rightarrow> n) + 1) else map_of m k')"
  by (simp add: incr_def map_of_store)

lemma distinct_incr: "distinct (map fst m) \<Longrightarrow> distinct (map fst (incr k m))"
  by (simp add: incr_def distinct_store)

lemma recordAll_Nil: "recordAll d m [] = m"
  by (simp add: recordAll_def)

lemma recordAll_Cons: "recordAll d m (r # rs) = recordAll d (recordMethod d r m) rs"
  by (simp add: recordAll_def)

lemma StatusCodes_recordMethod: "StatusCodes (recordMethod d r m) = incr (StatusCode r) (StatusCodes m)"
  by (simp add: recordMethod_def)

lemma distinct_StatusCodes:
  "distinct (map fst (StatusCodes m)) \<Longrightarrow> distinct (map fst (StatusCodes (recordAll d m rs)))"
  by (induction rs arbitrary: m)
     (simp_all add: recordAll_Nil recordAll_Cons StatusCodes_recordMethod distinct_incr)

lemma StatusCodes_recordAll:
  "map_of (StatusCodes (recordAll d m rs)) k =
     (if count_list (map StatusCode rs) k = 0 then map_of (StatusCodes m) k
      else Some ((case map_of (StatusCodes m) k of None \<Rightarrow> 0 | Some n \<Rightarrow> n)
                 + of_nat (count_list (map StatusCode rs) k)))"
proof (induction rs arbitrary: m)
  case Nil
  then show ?case by (simp add: recordAll_Nil)
next
  case (Cons r rs)
  show ?case
    unfolding recordAll_Cons Cons StatusCodes_recordMethod map_of_incr
    by (simp add: add.assoc add.commute)
qed

lemma StatusCodes_new:
  "map_of (StatusCodes (recordAll d (newMethod d) rs)) k =
     (if count_list (map StatusCode rs) k = 0 then None
      else Some (of_nat (count_list (map StatusCode rs) k)))"
  unfolding StatusCodes_recordAll by (simp add: newMethod_def)

lemma sum_alist:
  "distinct (map fst xs) \<Longrightarrow>
   sum_list (map (\<lambda>(k, n). f n) xs) = (\<Sum>k \<in> fst ` set xs. f (the (map_of xs k)))"
proof (induction xs)
  case Nil
  then show ?case by simp
next
  case (Cons kv xs)
  obtain k n where kv: "kv = (k, n)" by (cases kv)
  have notin: "k \<notin> fst ` set xs" using Cons.prems kv by simp
  have "(\<Sum>k' \<in> fst ` set xs. f (the (map_of (kv # xs) k'))) =
        (\<Sum>k' \<in> fst ` set xs. f (the (map_of xs k')))"
    by (rule sum.cong) (use notin kv in auto)
  then show ?case
    using Cons notin kv by simp
qed

lemma sint_of_nat_64: "n < 2 ^ 63 \<Longrightarrow> sint (of_nat n :: 64 word) = int n"
  by (simp add: signed_of_nat signed_take_bit_int_eq_self)


lemma Count_recordAll:
  assumes "countsInserts d"
  shows "Count d (Method.ContentLength (recordAll d m rs)) = Count d (Method.ContentLength m) + int (length rs)"
    and "Count d (Method.ClientDuration (recordAll d m rs)) = Count d (Method.ClientDuration m) + int (length rs)"
    and "Count d (Method.ServerDuration (recordAll d m rs)) = Count d (Method.ServerDuration m) + int (length rs)"
  using assms
  by (induction rs arbitrary: m)
     (simp_all add: recordAll_Nil recordAll_Cons recordMethod_def countsInserts_def)

lemma Count_new:
  assumes "countsInserts d"
  shows "Count d (Method.ContentLength (newMethod d)) = 0"
    and "Count d (Method.ClientDuration (newMethod d)) = 0"
    and "Count d (Method.ServerDuration (newMethod d)) = 0"
  using assms by (simp_all add: newMethod_def countsInserts_def)

lemma sum_StatusCodes:
  assumes "length rs < 2 ^ 63"
  shows "(\<Sum>(k, n)\<leftarrow>StatusCodes (recordAll d (newMethod d) rs). sint n) = int (length rs)"
proof -
  let ?m = "recordAll d (newMethod d) rs"
  let ?c = "count_list (map StatusCode rs)"
  have dist: "distinct (map fst (StatusCodes ?m))"
    by (rule distinct_StatusCodes) (simp add: newMethod_def)
  have keys: "fst ` set (StatusCodes ?m) = set (map StatusCode rs)"
  proof -
    have "fst ` set (StatusCodes ?m) = dom (map_of (StatusCodes ?m))"
      by (simp add: dom_map_of_conv_image_fst)
    also have "\<dots> = {k. ?c k \<noteq> 0}"
      unfolding dom_def StatusCodes_new by auto
    also have "\<dots> = set (map StatusCode rs)"
      by (auto simp: count_list_0_iff)
    finally show ?thesis .
  qed
  have val: "sint (the (map_of (StatusCodes ?m) k)) = int (?c k)"
    if "k \<in> set (map StatusCode rs)" for k
  proof -
    have "?c k \<le> length (map StatusCode rs)" by (rule count_le_length)
    then have "?c k < 2 ^ 63" using assms by simp
    moreover have "?c k \<noteq> 0" using that by (simp add: count_list_0_iff)
    ultimately show ?thesis
      unfolding StatusCodes_new by (simp add: sint_of_nat_64)
  qed
  have "(\<Sum>(k, n)\<leftarrow>StatusCodes ?m. sint n) = (\<Sum>k \<in> fst ` set (StatusCodes ?m). sint (the (map_of (StatusCodes ?m) k)))"
    by (rule sum_alist [OF dist])
  also have "\<dots> = (\<Sum>k \<in> set (map StatusCode rs). int (?c k))"
    unfolding keys by (rule sum.cong) (simp_all add: val)
  also have "\<dots> = int (\<Sum>k \<in> set (map StatusCode rs). ?c k)"
    by simp
  also have "\<dots> = int (length (map StatusCode rs))"
    by (simp add: sum_count_set)
  finally show ?thesis by simp
qed

lemma leaves_leaf:
  "(p, m) \<in> set (leaves (calculateMetrics d rs)) \<longleftrightarrow> leaf (calculateMetrics d rs) p = Some m"
  using leaf_leaves [OF wfTree_calculateMetrics, of d rs p]
    distinct_leaves [OF wfTree_calculateMetrics, of d rs]
  by (auto dest: map_of_SomeD)

lemma length_contrib: "length (contrib rs p) \<le> length rs"
  by (simp add: contrib_def)

lemma countsInserts_specDeps: "countsInserts specDeps"
  by (simp add: countsInserts_def specDeps_def sketchCount_def sketchInsert_def sketchNewTargeted_def)

lemma scenarioA_leaves:
  "leaves (calculateMetrics specDeps scenarioA) = [((''a1'', ''i1'', ''/x'', ''GET''), scenarioALeaf)]"
  by (simp add: calculateMetrics_def scenarioA_def scenarioA200_def scenarioA500_def
      calculateStep_def Let_def newMethod_def recordMethod_def incr_def specDeps_def
      sketchInsert_def sketchNewTargeted_def leaves_def applicationLeaves_def
      instanceLeaves_def flatten_def scenarioALeaf_def)


section \<open>Batches in another order\<close>

lemma contrib_mset: "mset rs' = mset rs \<Longrightarrow> mset (contrib rs' p) = mset (contrib rs p)"
  by (simp add: contrib_def)

lemma count_list_mset: "mset xs = mset ys \<Longrightarrow> count_list xs k = count_list ys k"
  by (metis count_mset)

lemma leafSummary_recordAll:
  assumes "countsInserts d" and "mset cs' = mset cs"
  shows "leafSummary d (recordAll d (newMethod d) cs') = leafSummary d (recordAll d (newMethod d) cs)"
proof -
  have len: "length cs' = length cs"
    using assms(2) by (rule mset_eq_length)
  have "mset (map StatusCode cs') = mset (map StatusCode cs)"
    using assms(2) by simp
  then have cnt: "count_list (map StatusCode cs') k = count_list (map StatusCode cs) k" for k
    by (rule count_list_mset)
  have "map_of (StatusCodes (recordAll d (newMethod d) cs')) = map_of (StatusCodes (recordAll d (newMethod d) cs))"
    by (rule ext) (simp only: StatusCodes_new cnt)
  then show ?thesis
    unfolding leafSummary_def
    by (simp add: Count_recordAll [OF assms(1)] len)
qed

lemma scenarioAPermuted_leaves:
  "leaves (calculateMetrics specDeps scenarioAPermuted) =
     [((''a1'', ''i1'', ''/x'', ''GET''), scenarioALeaf\<lparr>StatusCodes := [(500, 1), (200, 2)]\<rparr>)]"
  by (simp add: calculateMetrics_def scenarioAPermuted_def scenarioA200_def scenarioA500_def
      calculateStep_def Let_def newMethod_def recordMethod_def incr_def specDeps_def
      sketchInsert_def sketchNewTargeted_def leaves_def applicationLeaves_def
      instanceLeaves_def flatten_def scenarioALeaf_def)


section \<open>The emitted observations\<close>

lemma forEach_appends:
  "(\<And>x st. x \<in> set xs \<Longrightarrow> body x st = Inr (st @ g x)) \<Longrightarrow>
   forEach body xs st = Inr (st @ concat (map g xs))"
  by (induction xs arbitrary: st) simp_all

lemma concat_flatten:
  "concat (map (\<lambda>(k, v). concat (map (\<lambda>(p, x). h (k, p) x) (g v))) m) =
   concat (map (\<lambda>(kp, x). h kp x) (flatten m g))"
  by (induction m) (auto simp: flatten_def comp_def case_prod_unfold)

lemma reportResponseSize_accepted:
  "accepts d (responseSizeBytesDesc c) 4 \<Longrightarrow>
   reportResponseSize c d s a i u m ch = Inr (ch @ [summaryOf d (responseSizeBytesDesc c) (a, i, u, m) s])"
  by (simp add: reportResponseSize_def accepts_def MustNewConstSummary_def send_def summaryOf_def)

lemma reportClientRequestDuration_accepted:
  "accepts d (clientRequestDurationNanosecondsDesc c) 4 \<Longrightarrow>
   reportClientRequestDuration c d s a i u m ch =
     Inr (ch @ [summaryOf d (clientRequestDurationNanosecondsDesc c) (a, i, u, m) s])"
  by (simp add: reportClientRequestDuration_def accepts_def MustNewConstSummary_def send_def summaryOf_def)

lemma reportServerRequestDuration_accepted:
  "accepts d (serverRequestDurationNanosecondsDesc c) 4 \<Longrightarrow>
   reportServerRequestDuration c d s a i u m ch =
     Inr (ch @ [summaryOf d (serverRequestDurationNanosecondsDesc c) (a, i, u, m) s])"
  by (simp add: reportServerRequestDuration_def accepts_def MustNewConstSummary_def send_def summaryOf_def)

lemma reportRequestTotal_accepted:
  "accepts d (requestTotalDesc c) 5 \<Longrightarrow>
   reportRequestTotal c d n a i u m (Itoa (sint k)) ch = Inr (ch @ [counterOf c d (a, i, u, m) (k, n)])"
  by (simp add: reportRequestTotal_def accepts_def MustNewConstMetric_def NewConstMetric_def
      send_def counterOf_def)

lemma reportResponseSize_panics:
  "conflict d (responseSizeBytesDesc c) [a, i, u, m] = Some err \<Longrightarrow>
   reportResponseSize c d s a i u m ch = Inl (Panic err)"
  by (simp add: reportResponseSize_def MustNewConstSummary_def send_def)

lemma reportLeaf_panics:
  "conflict d (responseSizeBytesDesc c) [a, i, u, m] = Some err \<Longrightarrow>
   reportLeaf c d a i u m meth ch = Inl (Panic err)"
  by (simp add: reportLeaf_def andThen_def reportResponseSize_panics)

lemma reportLeaf_accepted:
  assumes "acceptsHttp d c"
  shows "reportLeaf c d a i u m meth ch = Inr (ch @ leafObservations c d (a, i, u, m) meth)"
proof -
  have acc: "accepts d (requestTotalDesc c) 5" "accepts d (responseSizeBytesDesc c) 4"
    "accepts d (clientRequestDurationNanosecondsDesc c) 4"
    "accepts d (serverRequestDurationNanosecondsDesc c) 4"
    using assms by (simp_all add: acceptsHttp_def)
  have counters: "forEach (\<lambda>(statusCode, requestTotal) ch.
        reportRequestTotal c d requestTotal a i u m (Itoa (sint statusCode)) ch) (StatusCodes meth) st
      = Inr (st @ concat (map (\<lambda>kn. [counterOf c d (a, i, u, m) kn]) (StatusCodes meth)))" for st
    by (rule forEach_appends) (auto simp: reportRequestTotal_accepted [OF acc(1)])
  have single: "concat (map (\<lambda>kn. [counterOf c d (a, i, u, m) kn]) (StatusCodes meth)) =
      map (counterOf c d (a, i, u, m)) (StatusCodes meth)"
    by (induction "StatusCodes meth") auto
  show ?thesis
    unfolding reportLeaf_def
    by (simp add: andThen_def reportResponseSize_accepted [OF acc(2)]
        reportClientRequestDuration_accepted [OF acc(3)]
        reportServerRequestDuration_accepted [OF acc(4)] counters single leafObservations_def)
qed

lemma reportLoops_accepted:
  assumes "acceptsHttp d c"
  shows "reportLoops c d applications ch =
    Inr (ch @ concat (map (\<lambda>(p, meth). leafObservations c d p meth) (leaves applications)))"
proof -
  let ?h = "leafObservations c d"
  have lvlU: "forEach (\<lambda>(methodKey, meth). reportLeaf c d a i u methodKey meth) (Methods uri) st =
      Inr (st @ concat (map (\<lambda>(m, meth). ?h (a, i, u, m) meth) (Methods uri)))" for a i u uri st
    by (rule forEach_appends) (auto simp: reportLeaf_accepted [OF assms])
  have lvlI: "forEach (\<lambda>(uriKey, uri).
        forEach (\<lambda>(methodKey, meth). reportLeaf c d a i uriKey methodKey meth) (Methods uri))
        (Uris inst) st =
      Inr (st @ concat (map (\<lambda>(um, meth). ?h (a, i, um) meth) (instanceLeaves inst)))" for a i inst st
  proof -
    have "forEach (\<lambda>(uriKey, uri).
        forEach (\<lambda>(methodKey, meth). reportLeaf c d a i uriKey methodKey meth) (Methods uri))
        (Uris inst) st =
      Inr (st @ concat (map (\<lambda>(u, uri). concat (map (\<lambda>(m, meth). ?h (a, i, u, m) meth) (Methods uri)))
        (Uris inst)))"
      by (rule forEach_appends) (auto simp: lvlU)
    also have "concat (map (\<lambda>(u, uri). concat (map (\<lambda>(m, meth). ?h (a, i, u, m) meth) (Methods uri)))
        (Uris inst)) = concat (map (\<lambda>(um, meth). ?h (a, i, um) meth) (instanceLeaves inst))"
      unfolding instanceLeaves_def
      by (rule concat_flatten [where h = "\<lambda>um meth. ?h (a, i, um) meth"])
    finally show ?thesis .
  qed
  have lvlA: "forEach (\<lambda>(instanceID, inst).
        forEach (\<lambda>(uriKey, uri).
          forEach (\<lambda>(methodKey, meth). reportLeaf c d a instanceID uriKey methodKey meth) (Methods uri))
          (Uris inst))
        (Instances app) st =
      Inr (st @ concat (map (\<lambda>(ium, meth). ?h (a, ium) meth) (applicationLeaves app)))" for a app st
  proof -
    have "forEach (\<lambda>(instanceID, inst).
        forEach (\<lambda>(uriKey, uri).
          forEach (\<lambda>(methodKey, meth). reportLeaf c d a instanceID uriKey methodKey meth) (Methods uri))
          (Uris inst))
        (Instances app) st =
      Inr (st @ concat (map (\<lambda>(i, inst). concat (map (\<lambda>(um, meth). ?h (a, i, um) meth) (instanceLeaves inst)))
        (Instances app)))"
      by (rule forEach_appends) (auto simp: lvlI)
    also have "concat (map (\<lambda>(i, inst). concat (map (\<lambda>(um, meth). ?h (a, i, um) meth) (instanceLeaves inst)))
        (Instances app)) = concat (map (\<lambda>(ium, meth). ?h (a, ium) meth) (applicationLeaves app))"
      unfolding applicationLeaves_def
      by (rule concat_flatten [where h = "\<lambda>ium meth. ?h (a, ium) meth"])
    finally show ?thesis .
  qed
  have "reportLoops c d applications ch =
      Inr (ch @ concat (map (\<lambda>(a, app). concat (map (\<lambda>(ium, meth). ?h (a, ium) meth) (applicationLeaves app)))
        applications))"
    unfolding reportLoops_def
    by (rule forEach_appends) (auto simp: lvlA)
  also have "concat (map (\<lambda>(a, app). concat (map (\<lambda>(ium, meth). ?h (a, ium) meth) (applicationLeaves app)))
        applications) = concat (map (\<lambda>(p, meth). ?h p meth) (leaves applications))"
    unfolding leaves_def
    by (rule concat_flatten [where h = "\<lambda>p meth. ?h p meth"])
  finally show ?thesis .
qed

lemma Itoa_200: "Itoa 200 = ''200''"
  by (simp add: Itoa_def natDec.simps digitChar_def)

lemma Itoa_500: "Itoa 500 = ''500''"
  by (simp add: Itoa_def natDec.simps digitChar_def)

lemma digit_table:
  "list_all (\<lambda>k. (of_char (digitChar k) :: nat) - 48 = k \<and> digitChar k \<noteq> CHR ''-'')
     [0, 1, 2, 3, 4, 5, 6, 7, 8, 9]"
  by (simp add: digitChar_def)

lemma below_ten: "n < 10 \<Longrightarrow> n \<in> set [0, 1, 2, 3, 4, 5, 6, 7, 8, 9 :: nat]"
  unfolding set_simps insert_iff empty_iff by arith

lemma digitChar_value: "n < 10 \<Longrightarrow> of_char (digitChar n) - 48 = n"
  using digit_table below_ten [of n] unfolding list_all_iff by blast

lemma digitChar_not_minus: "n < 10 \<Longrightarrow> digitChar n \<noteq> CHR ''-''"
  using digit_table below_ten [of n] unfolding list_all_iff by blast

lemma digitsValue_snoc: "digitsValue (s @ [c]) = 10 * digitsValue s + (of_char c - 48)"
  by (simp add: digitsValue_def)

lemma digitsValue_natDec: "digitsValue (natDec n) = n"
proof (induction n rule: natDec.induct)
  case (1 n)
  show ?case
  proof (cases "n < 10")
    case True
    then show ?thesis
      by (subst natDec.simps) (simp add: digitsValue_def digitChar_value)
  next
    case False
    have "digitsValue (natDec n) = 10 * digitsValue (natDec (n div 10)) + (of_char (digitChar (n mod 10)) - 48)"
      using False by (subst natDec.simps) (simp add: digitsValue_snoc)
    also have "\<dots> = 10 * (n div 10) + n mod 10"
      using 1 [OF False] by (simp add: digitChar_value)
    finally show ?thesis by simp
  qed
qed

lemma natDec_nonempty: "natDec n \<noteq> []"
  by (subst natDec.simps) simp

lemma hd_natDec: "hd (natDec n) \<noteq> CHR ''-''"
proof (induction n rule: natDec.induct)
  case (1 n)
  show ?case
  proof (cases "n < 10")
    case True
    then show ?thesis by (subst natDec.simps) (simp add: digitChar_not_minus)
  next
    case False
    then show ?thesis
      using 1 [OF False] natDec_nonempty [of "n div 10"]
      by (subst natDec.simps) simp
  qed
qed

lemma decimalValue_Itoa: "decimalValue (Itoa i) = i"
proof (cases "i < 0")
  case True
  then show ?thesis
    by (simp add: Itoa_def decimalValue_def digitsValue_natDec)
next
  case False
  obtain c cs where n: "natDec (nat i) = c # cs"
    using natDec_nonempty [of "nat i"] by (cases "natDec (nat i)") auto
  have "c \<noteq> CHR ''-''"
    using hd_natDec [of "nat i"] n by simp
  then have "decimalValue (natDec (nat i)) = int (digitsValue (natDec (nat i)))"
    by (simp add: decimalValue_def n)
  then show ?thesis
    using False by (simp add: Itoa_def digitsValue_natDec)
qed

lemma distinct_StatusCodes_leaf:
  assumes "(p, meth) \<in> set (leaves (calculateMetrics d rs))"
  shows "distinct (map fst (StatusCodes meth))"
proof -
  have "meth = recordAll d (newMethod d) (contrib rs p)"
    using assms unfolding leaves_leaf leaf_calculateMetrics by (simp split: if_splits)
  then show ?thesis
    by (simp add: distinct_StatusCodes newMethod_def)
qed

lemma acceptsHttp_firehose: "acceptsHttp specDeps firehose"
  by (simp add: acceptsHttp_def accepts_def firehose_def NewHttpStartStopCollector_def
      specDeps_def labelConflict_def NewDesc_def)

lemma scenarioA_leafObservations:
  "leafObservations firehose specDeps (''a1'', ''i1'', ''/x'', ''GET'') scenarioALeaf =
     scenarioAObservations"
  by (simp add: leafObservations_def summaryOf_def counterOf_def scenarioALeaf_def
      scenarioAObservations_def samplesSum_def specDeps_def sketchSamples_def sketchQuery_def
      sketchCount_def Itoa_200 Itoa_500)


section \<open>The value metrics path\<close>

lemma labels_fold:
  "foldl (\<lambda>(constLabels, labelValues) (k, v).
            (constLabels @ [NormalizeName d k], labelValues @ [v])) (ns, vs) ts =
     (ns @ map (\<lambda>(k, v). NormalizeName d k) ts, vs @ map (\<lambda>(k, v). v) ts)"
  by (induction ts arbitrary: ns vs) auto

lemma valueMetricLabels_eq:
  "valueMetricLabels d vm =
     ([''origin'', ''bosh_deployment'', ''bosh_job_name'', ''bosh_job_id'', ''bosh_job_ip'',
       ''unit''] @ map (\<lambda>(k, v). NormalizeName d k) (Tags vm),
      [Origin vm, Deployment vm, Job vm, Index vm, IP vm, Unit vm]
        @ map (\<lambda>(k, v). v) (Tags vm))"
  unfolding valueMetricLabels_def by (rule labels_fold)

lemma collectValueMetric_constructed:
  "constructed c d vm \<Longrightarrow> collectValueMetric c d st vm = st\<lparr>sent := sent st @ [gaugeOf c d vm]\<rparr>"
  by (simp add: collectValueMetric_def constructed_def NewConstMetric_def gaugeOf_def
      valueMetricDesc_def valueMetricLabels_eq NewDesc_def BuildFQName_def
      value_metrics_subsystem_def)

lemma collectValueMetric_failed:
  "\<not> constructed c d vm \<Longrightarrow>
   collectValueMetric c d st vm = st\<lparr>logged := logged st @ [discardMessage c d vm]\<rparr>"
  by (auto simp: collectValueMetric_def constructed_def NewConstMetric_def discardMessage_def)

lemma collect_fold:
  "foldl (collectValueMetric c d) st vms =
     \<lparr>sent = sent st @ map (gaugeOf c d) (filter (constructed c d) vms),
      logged = logged st @ map (discardMessage c d) (filter (\<lambda>vm. \<not> constructed c d vm) vms)\<rparr>"
proof (induction vms arbitrary: st)
  case Nil
  then show ?case by simp
next
  case (Cons vm vms)
  show ?case
  proof (cases "constructed c d vm")
    case True
    then show ?thesis
      by (simp add: Cons collectValueMetric_constructed)
  next
    case False
    then show ?thesis
      by (simp add: Cons collectValueMetric_failed)
  qed
qed

lemma Collect_eq:
  "ValueMetricsCollector_Collect c d st =
     (GetValueMetrics (ValueMetricsCollector.metricsStore c),
      \<lparr>sent = sent st @ map (gaugeOf c d)
         (filter (constructed c d) (GetValueMetrics (ValueMetricsCollector.metricsStore c))),
       logged = logged st @ map (discardMessage c d)
         (filter (\<lambda>vm. \<not> constructed c d vm)
            (GetValueMetrics (ValueMetricsCollector.metricsStore c)))\<rparr>)"
  by (simp add: ValueMetricsCollector_Collect_def Let_def collect_fold)

lemma withBatch_simps:
  "GetValueMetrics (ValueMetricsCollector.metricsStore (withBatch c vms)) = vms"
  "valueMetricDesc (withBatch c vms) d vm = valueMetricDesc c d vm"
  "constructed (withBatch c vms) d = constructed c d"
  "gaugeOf (withBatch c vms) d = gaugeOf c d"
  "discardMessage (withBatch c vms) d = discardMessage c d"
  by (simp_all add: withBatch_def valueMetricDesc_def constructed_def gaugeOf_def
      discardMessage_def fun_eq_iff)

lemma constructed_scenarioC: "constructed (valueCollector vms) specDeps scenarioC"
  by (simp add: constructed_def valueMetricDesc_def valueMetricLabels_eq specDeps_def
      labelConflict_def scenarioC_def NewDesc_def)

lemma conflict_scenarioCConflict: "\<not> constructed (valueCollector vms) specDeps scenarioCConflict"
  by (simp add: constructed_def valueMetricDesc_def valueMetricLabels_eq specDeps_def
      labelConflict_def scenarioC_def scenarioCConflict_def NewDesc_def)

lemma gaugeOf_scenarioC: "gaugeOf (valueCollector vms) specDeps scenarioC = scenarioCGauge"
  by (simp add: gaugeOf_def scenarioC_def scenarioCGauge_def valueCollector_def
      NewValueMetricsCollector_def specDeps_def)

lemma valueCollector_batch:
  "GetValueMetrics (ValueMetricsCollector.metricsStore (valueCollector vms)) = vms"
  by (simp add: valueCollector_def NewValueMetricsCollector_def)

lemma scenarioC_sent:
  "sent (snd (ValueMetricsCollector_Collect (valueCollector [scenarioC]) specDeps noEmission))
     = [scenarioCGauge]"
  unfolding Collect_eq
  by (simp add: noEmission_def constructed_scenarioC gaugeOf_scenarioC valueCollector_batch)

lemma discardMessage_scenarioCConflict:
  "discardMessage (valueCollector vms) specDeps scenarioCConflict =
     ''Value Metric `cpu` from `doppler` discarded: duplicate label names''"
  by (simp add: discardMessage_def valueMetricDesc_def valueMetricLabels_eq specDeps_def
      labelConflict_def scenarioC_def scenarioCConflict_def NewDesc_def)

lemma scenarioCConflict_sent:
  "snd (ValueMetricsCollector_Collect (valueCollector [scenarioCConflict]) specDeps noEmission)
     = \<lparr>sent = [], logged = [''Value Metric `cpu` from `doppler` discarded: duplicate label names'']\<rparr>"
  unfolding Collect_eq valueCollector_batch
  by (simp add: noEmission_def conflict_scenarioCConflict discardMessage_scenarioCConflict)

lemma counters_of_leaf:
  assumes "x \<in> set (leafObservations c d p meth)" and "x = ConstMetric desc CounterValue v lvs"
  shows "\<exists>k n. (k, n) \<in> set (StatusCodes meth) \<and> x = counterOf c d p (k, n) \<and>
    length lvs = 5 \<and> lvs ! 4 = Itoa (sint k)"
proof -
  obtain a i u m where p: "p = (a, i, u, m)" by (cases p) auto
  have "x \<in> set (map (counterOf c d p) (StatusCodes meth))"
    using assms by (auto simp: leafObservations_def summaryOf_def p)
  then obtain k n where kn: "(k, n) \<in> set (StatusCodes meth)" "x = counterOf c d p (k, n)"
    by auto
  have "lvs = [a, i, u, m, Itoa (sint k)]"
    using kn(2) assms(2) by (simp add: counterOf_def p)
  then show ?thesis using kn by auto
qed

lemma valueMetricsCollector_Collect_labelConflict:
  assumes "conflict d = labelConflict"
  shows "valueMetricsCollector_Collect ns d vms ch = Inr (ch @ map (legacyGauge ns d) vms)"
proof -
  have "valueMetricsCollector_Collect ns d vms ch =
      Inr (ch @ concat (map (\<lambda>vm. [legacyGauge ns d vm]) vms))"
    unfolding valueMetricsCollector_Collect_def
    by (rule forEach_appends)
       (simp add: send_def MustNewConstMetric_def NewConstMetric_def assms labelConflict_def
          NewDesc_def legacyGauge_def BuildFQName_def value_metrics_subsystem_def)
  moreover have "concat (map (\<lambda>vm. [legacyGauge ns d vm]) vms) = map (legacyGauge ns d) vms"
    by (induction vms) simp_all
  ultimately show ?thesis by simp
qed

lemma valueMetricsCollector_Collect_panics:
  assumes "conflict d (metricDesc (legacyGauge ns d vm))
     [Origin vm, Deployment vm, Job vm, Index vm, IP vm, Unit vm] = Some err"
  shows "valueMetricsCollector_Collect ns d (vm # vms) ch = Inl (Panic err)"
  using assms
  by (simp add: valueMetricsCollector_Collect_def send_def MustNewConstMetric_def
      NewConstMetric_def legacyGauge_def metricDesc_def NewDesc_def BuildFQName_def
      value_metrics_subsystem_def)


section \<open>The walk with the state of the streams\<close>






















lemma fourSizes_afterReads:
  "afterReads boundedReads \<lparr>keptB = [(10, 1), (20, 1), (30, 1), (40, 1)], insertsB = 4\<rparr> =
     \<lparr>keptB = [(10, 1), (40, 3)], insertsB = 4\<rparr>"
  by code_simp





lemma StatusCodes_readMethod: "StatusCodes (readMethod rd meth) = StatusCodes meth"
  by (simp add: readMethod_def)

section \<open>The claims\<close>

text \<open>
  C1. For every batch, the tree returned by \<^verbatim>\<open>calculateMetrics\<close> has exactly one leaf per
  distinct (applicationId, instanceId, uri, method) among the records with a non-empty
  applicationId: the paths of its leaves are pairwise different, they are exactly the
  paths of those records, and looking a path up in the tree finds the leaf listed under
  it. No leaf has an empty application id, and a batch of records that all have an empty
  applicationId gives the empty tree.
\<close>

theorem calculateMetrics_leaves:
  "distinct (map fst (leaves (calculateMetrics d rs))) \<and>
   fst ` set (leaves (calculateMetrics d rs)) = pathOf ` {r \<in> set rs. ApplicationId r \<noteq> []} \<and>
   (\<forall>p. map_of (leaves (calculateMetrics d rs)) p = leaf (calculateMetrics d rs) p) \<and>
   (\<forall>a i u m x. ((a, i, u, m), x) \<in> set (leaves (calculateMetrics d rs)) \<longrightarrow> a \<noteq> []) \<and>
   ((\<forall>r \<in> set rs. ApplicationId r = []) \<longrightarrow> calculateMetrics d rs = [])"
proof (intro conjI allI impI)
  show "distinct (map fst (leaves (calculateMetrics d rs)))"
    by (rule distinct_leaves [OF wfTree_calculateMetrics])
  show "fst ` set (leaves (calculateMetrics d rs)) = pathOf ` {r \<in> set rs. ApplicationId r \<noteq> []}"
    by (rule keys_leaves)
  show "map_of (leaves (calculateMetrics d rs)) p = leaf (calculateMetrics d rs) p" for p
    by (rule leaf_leaves [OF wfTree_calculateMetrics])
  show "a \<noteq> []" if "((a, i, u, m), x) \<in> set (leaves (calculateMetrics d rs))" for a i u m x
  proof -
    have "(a, i, u, m) \<in> fst ` set (leaves (calculateMetrics d rs))"
      using that by force
    then show ?thesis unfolding keys_leaves by (auto simp: pathOf_def)
  qed
  show "calculateMetrics d rs = []" if "\<forall>r \<in> set rs. ApplicationId r = []"
    using that by (simp add: calculateMetrics_def calculateMetrics_skip_all)
qed

theorem calculateMetrics_leaves_witness:
  "ApplicationId scenarioB = [] \<and> calculateMetrics specDeps [scenarioB] = [] \<and>
   leaves (calculateMetrics specDeps [scenarioB]) = [] \<and>
   map pathOf (scenarioB # scenarioA) =
     [([], ''i1'', ''/x'', ''GET''), (''a1'', ''i1'', ''/x'', ''GET''),
      (''a1'', ''i1'', ''/x'', ''GET''), (''a1'', ''i1'', ''/x'', ''GET'')] \<and>
   map fst (leaves (calculateMetrics specDeps (scenarioB # scenarioA))) =
     [(''a1'', ''i1'', ''/x'', ''GET'')]"
proof -
  have skip: "calculateMetrics specDeps (scenarioB # scenarioA) = calculateMetrics specDeps scenarioA"
    by (simp add: calculateMetrics_def calculateStep_def scenarioB_def)
  have paths: "map pathOf (scenarioB # scenarioA) =
     [([], ''i1'', ''/x'', ''GET''), (''a1'', ''i1'', ''/x'', ''GET''),
      (''a1'', ''i1'', ''/x'', ''GET''), (''a1'', ''i1'', ''/x'', ''GET'')]"
    by (simp add: scenarioA_def scenarioA200_def scenarioA500_def scenarioB_def pathOf_def)
  have one: "map fst (leaves (calculateMetrics specDeps (scenarioB # scenarioA))) =
     [(''a1'', ''i1'', ''/x'', ''GET'')]"
    unfolding skip by (simp add: scenarioA_leaves)
  have none: "leaves ([] :: real Sketch Applications) = []"
    by (simp add: leaves_def flatten_def)
  show ?thesis
    using calculateMetrics_leaves [of specDeps "[scenarioB]"] paths one
    by (simp add: scenarioB_def none)
qed

text \<open>
  C3. For every batch (a Go slice: fewer than \<open>2^63\<close> records) and every leaf of the tree
  returned by \<^verbatim>\<open>calculateMetrics\<close>, the values of the leaf's \<^verbatim>\<open>StatusCodes\<close> map sum to the
  number of records of the batch that contribute to the leaf, each status code is counted
  as often as it occurs among them, and, \<open>Count\<close> being the number of inserts, each of the
  three sketches has that same count. In Scenario A the leaf has
  \<open>StatusCodes = {200: 2, 500: 1}\<close> and every sketch has count 3.
\<close>

theorem leaf_counts:
  assumes "countsInserts d" and "length rs < 2 ^ 63"
    and "(p, m) \<in> set (leaves (calculateMetrics d rs))"
  shows "(\<Sum>(k, n)\<leftarrow>StatusCodes m. sint n) = int (length (contrib rs p)) \<and>
    Count d (Method.ContentLength m) = int (length (contrib rs p)) \<and>
    Count d (Method.ClientDuration m) = int (length (contrib rs p)) \<and>
    Count d (Method.ServerDuration m) = int (length (contrib rs p)) \<and>
    distinct (map fst (StatusCodes m)) \<and>
    (\<forall>k n. (k, n) \<in> set (StatusCodes m) \<longrightarrow>
       sint n = int (length (filter (\<lambda>r. StatusCode r = k) (contrib rs p))) \<and> 0 < sint n)"
proof -
  let ?cs = "contrib rs p"
  have m: "m = recordAll d (newMethod d) ?cs"
    using assms(3) unfolding leaves_leaf leaf_calculateMetrics by (simp split: if_splits)
  have len: "length ?cs < 2 ^ 63"
    using assms(2) length_contrib [of rs p] by simp
  have dist: "distinct (map fst (StatusCodes m))"
    unfolding m by (rule distinct_StatusCodes) (simp add: newMethod_def)
  have each: "sint n = int (length (filter (\<lambda>r. StatusCode r = k) ?cs)) \<and> 0 < sint n"
    if "(k, n) \<in> set (StatusCodes m)" for k n
  proof -
    let ?c = "count_list (map StatusCode ?cs) k"
    have "map_of (StatusCodes m) k = Some n"
      using that dist by simp
    then have n: "?c \<noteq> 0" "n = of_nat ?c"
      unfolding m StatusCodes_new by (simp_all split: if_splits)
    have "?c \<le> length (map StatusCode ?cs)" by (rule count_le_length)
    then have "?c < 2 ^ 63" using len by simp
    then have "sint n = int ?c" unfolding n by (rule sint_of_nat_64)
    moreover have "?c = length (filter (\<lambda>r. StatusCode r = k) ?cs)"
      by (simp add: count_list_eq_length_filter filter_map comp_def eq_commute)
    ultimately show ?thesis using n(1) by simp
  qed
  have total: "(\<Sum>(k, n)\<leftarrow>StatusCodes m. sint n) = int (length ?cs)"
    unfolding m by (rule sum_StatusCodes [OF len])
  have c1: "Count d (Method.ContentLength m) = int (length ?cs)"
    unfolding m using Count_recordAll(1) [OF assms(1)] Count_new(1) [OF assms(1)] by simp
  have c2: "Count d (Method.ClientDuration m) = int (length ?cs)"
    unfolding m using Count_recordAll(2) [OF assms(1)] Count_new(2) [OF assms(1)] by simp
  have c3: "Count d (Method.ServerDuration m) = int (length ?cs)"
    unfolding m using Count_recordAll(3) [OF assms(1)] Count_new(3) [OF assms(1)] by simp
  show ?thesis
    using total c1 c2 c3 dist each by blast
qed

theorem leaf_counts_witness:
  "countsInserts specDeps \<and> length scenarioA < 2 ^ 63 \<and>
   leaves (calculateMetrics specDeps scenarioA) = [((''a1'', ''i1'', ''/x'', ''GET''), scenarioALeaf)] \<and>
   StatusCodes scenarioALeaf = [(200, 2), (500, 1)] \<and>
   (\<Sum>(k, n)\<leftarrow>StatusCodes scenarioALeaf. sint n) = 3 \<and>
   Count specDeps (Method.ContentLength scenarioALeaf) = 3 \<and>
   Count specDeps (Method.ClientDuration scenarioALeaf) = 3 \<and>
   Count specDeps (Method.ServerDuration scenarioALeaf) = 3"
proof -
  have len: "length scenarioA < 2 ^ 63" by (simp add: scenarioA_def)
  have mem: "((''a1'', ''i1'', ''/x'', ''GET''), scenarioALeaf) \<in> set (leaves (calculateMetrics specDeps scenarioA))"
    by (simp add: scenarioA_leaves)
  have c: "length (contrib scenarioA (''a1'', ''i1'', ''/x'', ''GET'')) = 3"
    by (simp add: contrib_def scenarioA_def scenarioA200_def scenarioA500_def pathOf_def)
  show ?thesis
    using leaf_counts [OF countsInserts_specDeps len mem] countsInserts_specDeps len
    by (simp add: scenarioA_leaves c scenarioALeaf_def)
qed


text \<open>
  C7. An empty sketch, one on which no \<open>Insert\<close> was performed, answers \<open>Query\<close> with 0 for
  every quantile, has \<open>Count\<close> 0 and no samples. \<open>Query\<close> is a total function: it does
  not fail.
\<close>

theorem empty_sketch:
  "sketchQuery (sketchNewTargeted qs) q = 0 \<and> sketchCount (sketchNewTargeted qs) = 0 \<and>
   sketchSamples (sketchNewTargeted qs) = []"
  by (simp add: sketchQuery_def sketchCount_def sketchSamples_def sketchNewTargeted_def)


text \<open>
  C8. \<^verbatim>\<open>calculateMetrics\<close> is a function of the batch, so two runs on the same batch give
  equal trees. For a batch in any other order (a permutation; the batch itself is one),
  the tree has the same set of leaf paths, and at each path the same \<^verbatim>\<open>StatusCodes\<close> map
  and, \<open>Count\<close> being the number of inserts, the same count in each of the three
  sketches.
\<close>

theorem calculateMetrics_permutation:
  assumes "countsInserts d" and "mset rs' = mset rs"
  shows "(rs' = rs \<longrightarrow> calculateMetrics d rs' = calculateMetrics d rs) \<and>
    fst ` set (leaves (calculateMetrics d rs')) = fst ` set (leaves (calculateMetrics d rs)) \<and>
    (\<forall>p. map_option (leafSummary d) (leaf (calculateMetrics d rs') p) =
          map_option (leafSummary d) (leaf (calculateMetrics d rs) p)) \<and>
    (\<forall>p m. (p, m) \<in> set (leaves (calculateMetrics d rs)) \<longrightarrow>
       (\<exists>m'. (p, m') \<in> set (leaves (calculateMetrics d rs')) \<and> leafSummary d m' = leafSummary d m))"
proof -
  have set_eq: "set rs' = set rs"
    using assms(2) by (rule mset_eq_setD)
  have keys: "fst ` set (leaves (calculateMetrics d rs')) = fst ` set (leaves (calculateMetrics d rs))"
    unfolding keys_leaves set_eq by (rule refl)
  have nil: "contrib rs' p = [] \<longleftrightarrow> contrib rs p = []" for p
    using contrib_mset [OF assms(2), of p] by (metis mset_zero_iff)
  have summ: "map_option (leafSummary d) (leaf (calculateMetrics d rs') p) =
          map_option (leafSummary d) (leaf (calculateMetrics d rs) p)" for p
    unfolding leaf_calculateMetrics
    using nil [of p] leafSummary_recordAll [OF assms(1) contrib_mset [OF assms(2), of p]]
    by simp
  have ex: "\<exists>m'. (p, m') \<in> set (leaves (calculateMetrics d rs')) \<and> leafSummary d m' = leafSummary d m"
    if "(p, m) \<in> set (leaves (calculateMetrics d rs))" for p m
  proof -
    have "leaf (calculateMetrics d rs) p = Some m"
      using that by (simp only: leaves_leaf)
    then obtain m' where "leaf (calculateMetrics d rs') p = Some m'" "leafSummary d m' = leafSummary d m"
      using summ [of p] by (cases "leaf (calculateMetrics d rs') p") auto
    then show ?thesis
      by (auto simp only: leaves_leaf)
  qed
  show ?thesis using keys summ ex by blast
qed

theorem calculateMetrics_permutation_witness:
  "countsInserts specDeps \<and> mset scenarioAPermuted = mset scenarioA \<and>
   leaves (calculateMetrics specDeps scenarioA) =
     [((''a1'', ''i1'', ''/x'', ''GET''), scenarioALeaf)] \<and>
   leaves (calculateMetrics specDeps scenarioAPermuted) =
     [((''a1'', ''i1'', ''/x'', ''GET''), scenarioALeaf\<lparr>StatusCodes := [(500, 1), (200, 2)]\<rparr>)] \<and>
   leafSummary specDeps (scenarioALeaf\<lparr>StatusCodes := [(500, 1), (200, 2)]\<rparr>) =
     leafSummary specDeps scenarioALeaf"
proof -
  have perm: "mset scenarioAPermuted = mset scenarioA"
    by (simp add: scenarioAPermuted_def scenarioA_def)
  have mem: "((''a1'', ''i1'', ''/x'', ''GET''), scenarioALeaf) \<in> set (leaves (calculateMetrics specDeps scenarioA))"
    by (simp add: scenarioA_leaves)
  show ?thesis
    using calculateMetrics_permutation [OF countsInserts_specDeps perm] mem
      countsInserts_specDeps perm
    by (auto simp: scenarioA_leaves scenarioAPermuted_leaves)
qed


text \<open>
  C4. When the exposition layer accepts the four descriptors of the collector (otherwise
  the \<^verbatim>\<open>Must\<close> constructors panic), \<^verbatim>\<open>reportMetrics\<close> returns, and what it has sent is,
  for each leaf of the aggregated tree in turn, exactly the observations the spec states:
  three summaries (response size, client and server request duration), each with the
  count of its sketch, the sum of the values of the sketch's samples and the estimates at
  0.50, 0.90 and 0.99, then one counter for each status code of the leaf's map, with the
  code as additional label and its count as value. The leaves have pairwise different
  paths and the status codes of a leaf are pairwise different.
\<close>

theorem reportMetrics_observations:
  assumes "acceptsHttp d c"
  shows "reportMetrics c d (calculateMetrics d rs) ch =
      Inr (calculateMetrics d rs,
           ch @ concat (map (\<lambda>(p, meth). leafObservations c d p meth)
                          (leaves (calculateMetrics d rs)))) \<and>
    distinct (map fst (leaves (calculateMetrics d rs))) \<and>
    (\<forall>p meth. (p, meth) \<in> set (leaves (calculateMetrics d rs)) \<longrightarrow>
       distinct (map fst (StatusCodes meth)))"
proof (intro conjI allI impI)
  show "reportMetrics c d (calculateMetrics d rs) ch =
      Inr (calculateMetrics d rs,
           ch @ concat (map (\<lambda>(p, meth). leafObservations c d p meth)
                          (leaves (calculateMetrics d rs))))"
    by (simp add: reportMetrics_def andThen_def reportLoops_accepted [OF assms])
  show "distinct (map fst (leaves (calculateMetrics d rs)))"
    by (rule distinct_leaves [OF wfTree_calculateMetrics])
  show "distinct (map fst (StatusCodes meth))"
    if "(p, meth) \<in> set (leaves (calculateMetrics d rs))" for p meth
    using that by (rule distinct_StatusCodes_leaf)
qed

theorem reportMetrics_observations_witness:
  "acceptsHttp specDeps firehose \<and>
   reportMetrics firehose specDeps (calculateMetrics specDeps scenarioA) [] =
     Inr (calculateMetrics specDeps scenarioA, scenarioAObservations)"
  using reportMetrics_observations [OF acceptsHttp_firehose, of scenarioA "[]"]
    acceptsHttp_firehose
  by (simp add: scenarioA_leaves scenarioA_leafObservations)


text \<open>
  C5, as amended. \<^verbatim>\<open>ValueMetricsCollector.Collect\<close> sends, for the value metrics of the batch
  whose gauge the exposition layer constructs without error, in turn, exactly one gauge
  each and nothing else: its name is the namespace, \<^verbatim>\<open>value_metrics\<close> and the normalised
  origin and name joined by underscores, its labels are \<^verbatim>\<open>origin\<close>, \<^verbatim>\<open>bosh_deployment\<close>,
  \<^verbatim>\<open>bosh_job_name\<close>, \<^verbatim>\<open>bosh_job_id\<close>, \<^verbatim>\<open>bosh_job_ip\<close> and \<^verbatim>\<open>unit\<close> with the metric's origin,
  deployment, job, index, ip and unit as values, then one label per tag with the
  normalised key as name and the tag's value as value, and its value is the metric's
  value.
\<close>

theorem value_gauges:
  "sent (snd (ValueMetricsCollector_Collect c d st)) =
     sent st @ map (gaugeOf c d)
       (filter (constructed c d) (GetValueMetrics (ValueMetricsCollector.metricsStore c))) \<and>
   (\<forall>vm. constructed c d vm \<longleftrightarrow>
      (\<exists>m. NewConstMetric d (valueMetricDesc c d vm) GaugeValue (ValueMetric.Value vm)
             (snd (valueMetricLabels d vm)) = Inr m))"
  by (auto simp: Collect_eq constructed_def NewConstMetric_def split: option.splits)

theorem value_gauges_witness:
  "constructed (valueCollector [scenarioC, scenarioCConflict]) specDeps scenarioC \<and>
   \<not> constructed (valueCollector [scenarioC, scenarioCConflict]) specDeps scenarioCConflict \<and>
   sent (snd (ValueMetricsCollector_Collect (valueCollector [scenarioC, scenarioCConflict])
     specDeps noEmission)) = [scenarioCGauge]"
  using value_gauges [of "valueCollector [scenarioC, scenarioCConflict]" specDeps noEmission]
  by (simp add: constructed_scenarioC conflict_scenarioCConflict valueCollector_batch
      gaugeOf_scenarioC noEmission_def)


text \<open>
  The claim as first stated fails: the gauge of Scenario C has no label named
  \<^verbatim>\<open>deployment\<close>, and a batch of one value metric whose tag is named \<^verbatim>\<open>origin\<close> yields no
  gauge at all.
\<close>

theorem value_gauge_counterexample:
  "sent (snd (ValueMetricsCollector_Collect (valueCollector [scenarioC]) specDeps noEmission))
     = [scenarioCGauge] \<and>
   ''deployment'' \<notin> set (variableLabels (metricDesc scenarioCGauge)) \<and>
   GetValueMetrics (ValueMetricsCollector.metricsStore (valueCollector [scenarioCConflict]))
     = [scenarioCConflict] \<and>
   sent (snd (ValueMetricsCollector_Collect (valueCollector [scenarioCConflict]) specDeps noEmission))
     = []"
  by (simp add: scenarioC_sent scenarioCConflict_sent valueCollector_batch metricDesc_def
      scenarioCGauge_def)


text \<open>
  C6. If the construction of the gauge of one value metric fails, the collector logs a line
  for it and goes on with the rest of the batch: what is sent is what is sent for the batch
  without that value metric, and the run is the run on the value metrics before it, one
  line added to the log, then the run on the value metrics after it. \<^verbatim>\<open>Collect\<close> has no
  panicking branch: it is a total function of the batch.
\<close>

theorem value_metric_dropped:
  assumes "NewConstMetric d (valueMetricDesc c d bad) GaugeValue (ValueMetric.Value bad)
             (snd (valueMetricLabels d bad)) = Inl err"
  shows "sent (snd (ValueMetricsCollector_Collect (withBatch c (xs @ bad # ys)) d st)) =
         sent (snd (ValueMetricsCollector_Collect (withBatch c (xs @ ys)) d st)) \<and>
    snd (ValueMetricsCollector_Collect (withBatch c (xs @ bad # ys)) d st) =
      snd (ValueMetricsCollector_Collect (withBatch c ys) d
        ((snd (ValueMetricsCollector_Collect (withBatch c xs) d st))
           \<lparr>logged := logged (snd (ValueMetricsCollector_Collect (withBatch c xs) d st))
              @ [''Value Metric `'' @ Name bad @ ''` from `'' @ Origin bad
                   @ ''` discarded: '' @ err]\<rparr>))"
proof -
  have bad: "\<not> constructed c d bad"
    using assms by (simp add: constructed_def NewConstMetric_def split: option.splits)
  have msg: "discardMessage c d bad =
      ''Value Metric `'' @ Name bad @ ''` from `'' @ Origin bad @ ''` discarded: '' @ err"
    using assms by (simp add: discardMessage_def NewConstMetric_def split: option.splits)
  show ?thesis
    unfolding Collect_eq withBatch_simps using bad msg by simp
qed

theorem value_metric_dropped_witness:
  "NewConstMetric specDeps (valueMetricDesc (valueCollector []) specDeps scenarioCConflict)
     GaugeValue (ValueMetric.Value scenarioCConflict)
     (snd (valueMetricLabels specDeps scenarioCConflict)) = Inl ''duplicate label names'' \<and>
   sent (snd (ValueMetricsCollector_Collect
     (withBatch (valueCollector []) [scenarioC, scenarioCConflict, scenarioC])
     specDeps noEmission)) = [scenarioCGauge, scenarioCGauge] \<and>
   sent (snd (ValueMetricsCollector_Collect
     (withBatch (valueCollector []) [scenarioC, scenarioC])
     specDeps noEmission)) = [scenarioCGauge, scenarioCGauge]"
proof -
  have failed: "NewConstMetric specDeps (valueMetricDesc (valueCollector []) specDeps scenarioCConflict)
     GaugeValue (ValueMetric.Value scenarioCConflict)
     (snd (valueMetricLabels specDeps scenarioCConflict)) = Inl ''duplicate label names''"
    by (simp add: NewConstMetric_def valueMetricDesc_def valueMetricLabels_eq specDeps_def
      labelConflict_def scenarioC_def scenarioCConflict_def NewDesc_def)
  have two: "sent (snd (ValueMetricsCollector_Collect
     (withBatch (valueCollector []) [scenarioC, scenarioC])
     specDeps noEmission)) = [scenarioCGauge, scenarioCGauge]"
    unfolding Collect_eq withBatch_simps
    by (simp add: noEmission_def constructed_scenarioC gaugeOf_scenarioC)
  have same: "sent (snd (ValueMetricsCollector_Collect
     (withBatch (valueCollector []) [scenarioC, scenarioCConflict, scenarioC])
     specDeps noEmission)) =
     sent (snd (ValueMetricsCollector_Collect
     (withBatch (valueCollector []) [scenarioC, scenarioC])
     specDeps noEmission))"
    using value_metric_dropped [OF failed, of "[scenarioC]" "[scenarioC]" noEmission, THEN conjunct1]
    by (simp only: append.simps)
  show ?thesis
    unfolding same two using failed by (intro conjI refl)
qed





text \<open>
  C10. Every gauge sent by the value metrics collector made by \<^verbatim>\<open>NewValueMetricsCollector\<close>
  carries the constant label \<^verbatim>\<open>environment\<close> with the environment given to the constructor.
  Every counter sent by \<^verbatim>\<open>reportMetrics\<close> is the counter of a status code of a leaf, and
  its fifth label value, the one of the label \<^verbatim>\<open>status_code\<close>, is \<^verbatim>\<open>strconv.Itoa\<close> of the
  \<open>int32\<close> code read as a signed number: a string of decimal digits, after a minus sign
  for a negative code, that denotes the code.
\<close>

theorem emitted_labels:
  "(\<forall>m \<in> set (sent (snd (ValueMetricsCollector_Collect
        (NewValueMetricsCollector ns env metricsStore') d noEmission))).
      \<exists>desc v lvs. m = ConstMetric desc GaugeValue v lvs \<and>
        constLabels desc = [(''environment'', env)]) \<and>
   (acceptsHttp d c \<longrightarrow>
      (\<exists>out. reportMetrics c d applications [] = Inr (applications, out) \<and>
         (\<forall>x \<in> set out. \<forall>desc v lvs. x = ConstMetric desc CounterValue v lvs \<longrightarrow>
            (\<exists>p meth k n. (p, meth) \<in> set (leaves applications) \<and>
               (k, n) \<in> set (StatusCodes meth) \<and> x = counterOf c d p (k, n) \<and>
               length lvs = 5 \<and> lvs ! 4 = Itoa (sint k))))) \<and>
   variableLabels (requestTotalDesc (NewHttpStartStopCollector ns' store')) ! 4 = ''status_code'' \<and>
   (\<forall>k :: 32 word. decimalValue (Itoa (sint k)) = sint k)"
proof (intro conjI ballI impI allI)
  fix m
  assume "m \<in> set (sent (snd (ValueMetricsCollector_Collect
        (NewValueMetricsCollector ns env metricsStore') d noEmission)))"
  then obtain vm where "m = gaugeOf (NewValueMetricsCollector ns env metricsStore') d vm"
    unfolding Collect_eq by (auto simp: noEmission_def)
  then show "\<exists>desc v lvs. m = ConstMetric desc GaugeValue v lvs \<and>
        constLabels desc = [(''environment'', env)]"
    by (simp add: gaugeOf_def NewValueMetricsCollector_def)
next
  assume acc: "acceptsHttp d c"
  let ?out = "concat (map (\<lambda>(p, meth). leafObservations c d p meth) (leaves applications))"
  have run: "reportMetrics c d applications [] = Inr (applications, ?out)"
    by (simp add: reportMetrics_def andThen_def reportLoops_accepted [OF acc])
  have "\<exists>p meth k n. (p, meth) \<in> set (leaves applications) \<and>
               (k, n) \<in> set (StatusCodes meth) \<and> x = counterOf c d p (k, n) \<and>
               length lvs = 5 \<and> lvs ! 4 = Itoa (sint k)"
    if "x \<in> set ?out" "x = ConstMetric desc CounterValue v lvs" for x desc v lvs
  proof -
    have "\<exists>pm \<in> set (leaves applications). x \<in> set (leafObservations c d (fst pm) (snd pm))"
      using that(1) by (auto simp: case_prod_unfold)
    then obtain p meth where pm: "(p, meth) \<in> set (leaves applications)"
      "x \<in> set (leafObservations c d p meth)"
      by force
    show ?thesis
      using counters_of_leaf [OF pm(2) that(2)] pm(1) by blast
  qed
  then show "\<exists>out. reportMetrics c d applications [] = Inr (applications, out) \<and>
         (\<forall>x \<in> set out. \<forall>desc v lvs. x = ConstMetric desc CounterValue v lvs \<longrightarrow>
            (\<exists>p meth k n. (p, meth) \<in> set (leaves applications) \<and>
               (k, n) \<in> set (StatusCodes meth) \<and> x = counterOf c d p (k, n) \<and>
               length lvs = 5 \<and> lvs ! 4 = Itoa (sint k)))"
    using run by blast
next
  show "variableLabels (requestTotalDesc (NewHttpStartStopCollector ns' store')) ! 4 = ''status_code''"
    by (simp add: NewHttpStartStopCollector_def NewDesc_def)
next
  fix k :: "32 word"
  show "decimalValue (Itoa (sint k)) = sint k"
    by (rule decimalValue_Itoa)
qed

theorem emitted_labels_witness:
  "sent (snd (ValueMetricsCollector_Collect
     (NewValueMetricsCollector ''firehose'' ''prod''
        \<lparr>GetHttpStartStops = [], GetValueMetrics = [scenarioC]\<rparr>) specDeps noEmission))
     = [scenarioCGauge] \<and>
   constLabels (metricDesc scenarioCGauge) = [(''environment'', ''prod'')] \<and>
   acceptsHttp specDeps firehose \<and>
   reportMetrics firehose specDeps (calculateMetrics specDeps scenarioA) [] =
     Inr (calculateMetrics specDeps scenarioA, scenarioAObservations) \<and>
   ConstMetric (requestTotalDesc firehose) CounterValue 2
     [''a1'', ''i1'', ''/x'', ''GET'', ''200''] \<in> set scenarioAObservations \<and>
   Itoa (sint (200 :: 32 word)) = ''200'' \<and>
   Itoa (sint (- 1 :: 32 word)) = ''-1''"
proof -
  have run: "reportMetrics firehose specDeps (calculateMetrics specDeps scenarioA) [] =
      Inr (calculateMetrics specDeps scenarioA, scenarioAObservations)"
    by (simp add: reportMetrics_def andThen_def reportLoops_accepted [OF acceptsHttp_firehose]
        scenarioA_leaves scenarioA_leafObservations)
  have gauge: "sent (snd (ValueMetricsCollector_Collect
     (NewValueMetricsCollector ''firehose'' ''prod''
        \<lparr>GetHttpStartStops = [], GetValueMetrics = [scenarioC]\<rparr>) specDeps noEmission))
     = [scenarioCGauge]"
    using scenarioC_sent by (simp add: valueCollector_def)
  have itoa: "Itoa (sint (200 :: 32 word)) = ''200''" "Itoa (sint (- 1 :: 32 word)) = ''-1''"
    by (simp_all add: Itoa_def natDec.simps digitChar_def)
  show ?thesis
    using emitted_labels [of "''firehose''" "''prod''"
        "\<lparr>GetHttpStartStops = [], GetValueMetrics = [scenarioC]\<rparr>" specDeps firehose
        "calculateMetrics specDeps scenarioA" "''firehose''"
        "\<lparr>GetHttpStartStops = [], GetValueMetrics = []\<rparr>"]
      run gauge itoa acceptsHttp_firehose
    by (simp add: scenarioCGauge_def metricDesc_def scenarioAObservations_def)
qed


end
